theory Spec2Isabelle
  imports Main "HOL-Library.Word"
begin

section \<open>Results of JavaScript calls\<close>

text \<open>
  A call of the program either returns a value, throws, or does not return. The
  exceptions are the ones the two source files and the built-ins they call can raise:
  \<^verbatim>\<open>RangeError\<close> (thrown by \<^verbatim>\<open>bigIntUtils.ts\<close>), \<^verbatim>\<open>SyntaxError\<close> (thrown by
  \<^verbatim>\<open>BigInt(string)\<close>), \<^verbatim>\<open>TypeError\<close> (a read through \<^verbatim>\<open>undefined\<close>),
  \<^verbatim>\<open>Error\<close> (thrown by \<^verbatim>\<open>index.ts\<close>) and the \<^verbatim>\<open>DOMException\<close> of \<^verbatim>\<open>atob\<close>.
\<close>

datatype error =
    RangeError string
  | SyntaxError
  | TypeError
  | Error string
  | DOMException string

datatype 'a result = Ok 'a | Throw error | Diverge

definition rbind :: "'a result \<Rightarrow> ('a \<Rightarrow> 'b result) \<Rightarrow> 'b result" where
  "rbind r f = (case r of Ok v \<Rightarrow> f v | Throw e \<Rightarrow> Throw e | Diverge \<Rightarrow> Diverge)"

section \<open>bigIntUtils.ts\<close>

text \<open>
  The program is the class \<^verbatim>\<open>CognitoSRP\<close> of \<^verbatim>\<open>index.ts\<close> over native \<^verbatim>\<open>bigint\<close>, with the
  modular arithmetic of \<^verbatim>\<open>bigIntUtils.ts\<close> it imports. \<^verbatim>\<open>index.ts\<close> holds an earlier class
  of the same name too, written over a \<^verbatim>\<open>BigInteger\<close> library; it is quoted where the two
  differ.

  \<^verbatim>\<open>bigint\<close> is an unbounded integer: \<open>int\<close>. Its \<^verbatim>\<open>/\<close> truncates towards zero and
  its \<^verbatim>\<open>%\<close> takes the sign of the dividend, unlike \<open>div\<close> and \<open>mod\<close> of HOL. Both
  throw on a zero divisor; every use below stands behind a guard that excludes it
  (\<^verbatim>\<open>n < 1n\<close> in \<^verbatim>\<open>toZn\<close>, \<^verbatim>\<open>a !== 0n\<close> in \<^verbatim>\<open>eGcd\<close>, \<^verbatim>\<open>m < 1n\<close> in \<^verbatim>\<open>modPow\<close>, the
  literal \<^verbatim>\<open>2n\<close>).
\<close>

definition bigint_div :: "int \<Rightarrow> int \<Rightarrow> int" where
  "bigint_div a b = sgn a * sgn b * (\<bar>a\<bar> div \<bar>b\<bar>)"

definition bigint_rem :: "int \<Rightarrow> int \<Rightarrow> int" where
  "bigint_rem a b = sgn a * (\<bar>a\<bar> mod \<bar>b\<bar>)"

text \<open>\<^verbatim>\<open>toZn(a, n)\<close>, lines 9--16.\<close>

definition toZn :: "int \<Rightarrow> int \<Rightarrow> int result" where
  "toZn a n =
     (if n < 1 then Throw (RangeError ''n must be > 0'')
      else let aZn = bigint_rem a n in Ok (if aZn < 0 then aZn + n else aZn))"

text \<open>\<^verbatim>\<open>eGcd(a, b)\<close>, lines 25--56, and the object \<^verbatim>\<open>{ g, x, y }\<close> it returns.\<close>

record egcd =
  egcd_g :: int
  egcd_x :: int
  egcd_y :: int

text \<open>
  The \<^verbatim>\<open>while (a !== 0n)\<close> loop of \<^verbatim>\<open>eGcd\<close> over its six variables; \<open>None\<close> stands
  for a loop that never ends.
\<close>

partial_function (option) eGcd_loop ::
  "int \<Rightarrow> int \<Rightarrow> int \<Rightarrow> int \<Rightarrow> int \<Rightarrow> int \<Rightarrow> egcd option" where
  "eGcd_loop a b x y u v =
     (if a \<noteq> 0 then
        let q = bigint_div b a;
            r = bigint_rem b a;
            m = x - u * q;
            n = y - v * q
        in eGcd_loop r a u v m n
      else Some \<lparr>egcd_g = b, egcd_x = x, egcd_y = y\<rparr>)"

declare eGcd_loop.simps [code]

definition eGcd :: "int \<Rightarrow> int \<Rightarrow> egcd result" where
  "eGcd a b =
     (if a < 1 \<or> b < 1 then Throw (RangeError ''a and b must be > 0'')
      else case eGcd_loop a b 0 1 1 0 of None \<Rightarrow> Diverge | Some r \<Rightarrow> Ok r)"

text \<open>\<^verbatim>\<open>modInv(a, n)\<close>, lines 66--73; its \<^verbatim>\<open>RangeError\<close> has no message.\<close>

definition modInv :: "int \<Rightarrow> int \<Rightarrow> int result" where
  "modInv a n =
     rbind (toZn a n) (\<lambda>z.
     rbind (eGcd z n) (\<lambda>e.
       if egcd_g e \<noteq> 1 then Throw (RangeError [])
       else toZn (egcd_x e) n))"

text \<open>
  \<^verbatim>\<open>modPow(x, y, m)\<close>, lines 83--105: first its \<^verbatim>\<open>while (y > 0)\<close> loop over \<^verbatim>\<open>r\<close>,
  \<^verbatim>\<open>x\<close> and \<^verbatim>\<open>y\<close>, then the function, which calls itself once for a negative \<^verbatim>\<open>y\<close>.
\<close>

partial_function (option) modPow_loop :: "int \<Rightarrow> int \<Rightarrow> int \<Rightarrow> int \<Rightarrow> int option" where
  "modPow_loop r x y m =
     (if y > 0 then
        modPow_loop (if bigint_rem y 2 = 1 then bigint_rem (r * x) m else r)
                    (bigint_rem (x ^ 2) m) (bigint_div y 2) m
      else Some r)"

declare modPow_loop.simps [code]

function modPow :: "int \<Rightarrow> int \<Rightarrow> int \<Rightarrow> int result" where
  "modPow x y m =
     (if m < 1 then Throw (RangeError ''n must be > 0'')
      else if m = 1 then Ok 0
      else case toZn x m of
             Ok x' \<Rightarrow>
               if y < 0 then
                 (case modPow x' (if y \<ge> 0 then y else - y) m of
                    Ok p \<Rightarrow> modInv p m
                  | Throw e \<Rightarrow> Throw e
                  | Diverge \<Rightarrow> Diverge)
               else (case modPow_loop 1 x' y m of None \<Rightarrow> Diverge | Some r \<Rightarrow> Ok r)
           | Throw e \<Rightarrow> Throw e
           | Diverge \<Rightarrow> Diverge)"
  by pat_completeness auto
termination
  by (relation "measure (\<lambda>(x, y, m). if y < 0 then 1 else 0)") auto

declare modPow.simps [simp del]

section \<open>Strings, hexadecimal text and the built-ins used on them\<close>

text \<open>
  A JavaScript string is modelled as a \<open>string\<close> of code units below 256. The
  characters are told apart by their codes: \<^verbatim>\<open>0\<close>--\<^verbatim>\<open>9\<close> are 48--57, \<^verbatim>\<open>A\<close>--\<^verbatim>\<open>F\<close>
  are 65--70, \<^verbatim>\<open>a\<close>--\<^verbatim>\<open>f\<close> are 97--102. A \<^verbatim>\<open>Uint8Array\<close> is a list of bytes.
\<close>

type_synonym byte = "8 word"

definition isHexDigit :: "char \<Rightarrow> bool" where
  "isHexDigit c =
     (let n = of_char c :: int in
      (48 \<le> n \<and> n \<le> 57) \<or> (97 \<le> n \<and> n \<le> 102) \<or> (65 \<le> n \<and> n \<le> 70))"

definition hexDigitValue :: "char \<Rightarrow> int" where
  "hexDigitValue c =
     (let n = of_char c :: int in
      if 48 \<le> n \<and> n \<le> 57 then n - 48
      else if 97 \<le> n \<and> n \<le> 102 then n - 87
      else if 65 \<le> n \<and> n \<le> 70 then n - 55
      else 0)"

text \<open>The number a string of hexadecimal digits denotes, most significant digit first.\<close>

definition hexValue :: "string \<Rightarrow> int" where
  "hexValue s = foldl (\<lambda>acc c. 16 * acc + hexDigitValue c) 0 s"

definition hexDigit :: "int \<Rightarrow> char" where
  "hexDigit n = char_of (if n < 10 then 48 + n else 87 + n)"

text \<open>\<^verbatim>\<open>toString(16)\<close> of a non-negative number: lower case, no leading zero.\<close>

function toHex_nat :: "int \<Rightarrow> string" where
  "toHex_nat n = (if n < 16 then [hexDigit n] else toHex_nat (n div 16) @ [hexDigit (n mod 16)])"
  by pat_completeness auto
termination
proof (relation "measure nat")
  show "wf (measure nat)" by simp
next
  fix n :: int
  assume "\<not> n < 16"
  then have "nat (n div 16) < nat n" by simp
  then show "(n div 16, n) \<in> measure nat" by simp
qed

declare toHex_nat.simps [simp del]

text \<open>\<^verbatim>\<open>BigInt.prototype.toString(16)\<close>: a negative value is written with a minus sign.\<close>

definition bigint_toString16 :: "int \<Rightarrow> string" where
  "bigint_toString16 v = (if v < 0 then CHR ''-'' # toHex_nat (- v) else toHex_nat v)"

text \<open>
  White space and line terminators of ECMAScript below 256: TAB, LF, VT, FF, CR, SP
  and NBSP.
\<close>

definition isStrWhiteSpaceChar :: "char \<Rightarrow> bool" where
  "isStrWhiteSpaceChar c = ((of_char c :: int) \<in> {9, 10, 11, 12, 13, 32, 160})"

definition trimStart :: "string \<Rightarrow> string" where
  "trimStart s = dropWhile isStrWhiteSpaceChar s"

definition trimEnd :: "string \<Rightarrow> string" where
  "trimEnd s = rev (dropWhile isStrWhiteSpaceChar (rev s))"

text \<open>
  \<^verbatim>\<open>BigInt(`0x${s}`)\<close>. The argument of \<^verbatim>\<open>BigInt\<close> is trimmed of white space and must
  then be \<^verbatim>\<open>0x\<close> followed by at least one hexadecimal digit and nothing else;
  otherwise \<^verbatim>\<open>BigInt\<close> throws a \<^verbatim>\<open>SyntaxError\<close>. The text starts with \<^verbatim>\<open>0x\<close>, so only
  white space at the end of \<open>s\<close> is trimmed.
\<close>

definition BigInt_0x :: "string \<Rightarrow> int result" where
  "BigInt_0x s =
     (let digits = trimEnd s in
      if digits \<noteq> [] \<and> list_all isHexDigit digits then Ok (hexValue digits)
      else Throw SyntaxError)"

text \<open>
  \<^verbatim>\<open>parseInt(s, 16)\<close>: leading white space, a sign and a \<^verbatim>\<open>0x\<close> prefix are skipped,
  then the longest run of hexadecimal digits is read; \<open>None\<close> is \<^verbatim>\<open>NaN\<close>. (Exact for
  the one- and two-character strings the program passes.)
\<close>

definition parseInt16 :: "string \<Rightarrow> int option" where
  "parseInt16 s =
     (let S = trimStart s;
          sign = (case S of c # _ \<Rightarrow> if c = CHR ''-'' then - 1 else 1 | [] \<Rightarrow> (1 :: int));
          S1 = (case S of c # r \<Rightarrow> if c = CHR ''-'' \<or> c = CHR ''+'' then r else S | [] \<Rightarrow> S);
          S2 = (case S1 of c # d # r \<Rightarrow>
                  if c = CHR ''0'' \<and> (d = CHR ''x'' \<or> d = CHR ''X'') then r else S1
                | _ \<Rightarrow> S1);
          Z = takeWhile isHexDigit S2
      in if Z = [] then None else Some (sign * hexValue Z))"

text \<open>\<^verbatim>\<open>toUpperCase\<close>, on the ASCII letters (it is applied to output of \<^verbatim>\<open>toString(16)\<close> only).\<close>

definition toUpperCase :: "string \<Rightarrow> string" where
  "toUpperCase s =
     map (\<lambda>c. if 97 \<le> (of_char c :: int) \<and> (of_char c :: int) \<le> 122
               then char_of ((of_char c :: int) - 32) else c) s"

definition padStart :: "nat \<Rightarrow> char \<Rightarrow> string \<Rightarrow> string" where
  "padStart n c s = replicate (n - length s) c @ s"

definition startsWith :: "string \<Rightarrow> string \<Rightarrow> bool" where
  "startsWith s p = (take (length p) s = p)"

section \<open>index.ts: hexadecimal helpers\<close>

text \<open>
  \<^verbatim>\<open>(~parseInt(nibble, 16) & 0xf).toString(16).toUpperCase()\<close>. For a digit \<open>d\<close>,
  \<^verbatim>\<open>~d\<close> is \<open>- d - 1\<close> and \<^verbatim>\<open>& 0xf\<close> keeps it modulo 16; \<^verbatim>\<open>~NaN\<close> is \<open>- 1\<close>, so a
  character that is no digit gives 15.
\<close>

definition invertNibble :: "char \<Rightarrow> string" where
  "invertNibble nibble =
     toUpperCase (bigint_toString16
       (case parseInt16 [nibble] of None \<Rightarrow> 15 | Some d \<Rightarrow> (- d - 1) mod 16))"

text \<open>The test \<^verbatim>\<open>/^[89a-f]/i\<close>: the first character is one of 8, 9, a--f, A--F.\<close>

definition testHighNibble :: "string \<Rightarrow> bool" where
  "testHighNibble s =
     (case s of [] \<Rightarrow> False
      | c # _ \<Rightarrow> let n = of_char c :: int in
          n = 56 \<or> n = 57 \<or> (97 \<le> n \<and> n \<le> 102) \<or> (65 \<le> n \<and> n \<le> 70))"

text \<open>
  \<^verbatim>\<open>getPaddedHex(bigInt: bigint)\<close> of the class that uses \<^verbatim>\<open>bigIntUtils\<close> (the second
  class of \<^verbatim>\<open>index.ts\<close>). It takes \<^verbatim>\<open>bigInt.toString(16)\<close> as it is, minus sign
  included; the parse of the inverted text is the only step that could throw.
\<close>

definition getPaddedHex :: "int \<Rightarrow> string result" where
  "getPaddedHex bigInt =
     (let hex = bigint_toString16 bigInt;
          hex = (if length hex mod 2 \<noteq> 0 then CHR ''0'' # hex else hex);
          hex = (if testHighNibble hex then ''00'' @ hex else hex)
      in if bigInt < 0 then
           let invertedHex = concat (map invertNibble hex)
           in rbind (BigInt_0x invertedHex) (\<lambda>n.
                let hex = bigint_toString16 (n + 1)
                in Ok (if startsWith (toUpperCase hex) ''FF8'' then drop 2 hex else hex))
         else Ok hex)"

definition getHexFromBytes :: "byte list \<Rightarrow> string" where
  "getHexFromBytes bytes =
     concat (map (\<lambda>byte. padStart 2 (CHR ''0'') (toHex_nat (uint byte))) bytes)"

text \<open>
  \<^verbatim>\<open>encoded.match(/(..)/g)\<close>: the successive pairs of characters, where \<^verbatim>\<open>.\<close> matches
  anything but a line terminator (LF, CR), and a character left over is dropped.
\<close>

fun matchPairs :: "string \<Rightarrow> string list" where
  "matchPairs (c # d # r) =
     (if (of_char c :: int) \<in> {10, 13} \<or> (of_char d :: int) \<in> {10, 13} then matchPairs (d # r)
      else [c, d] # matchPairs r)"
| "matchPairs _ = []"

text \<open>
  \<^verbatim>\<open>getBytesFromHex\<close>: no pair at all is \<^verbatim>\<open>null\<close> and throws; \<^verbatim>\<open>Uint8Array.from\<close>
  stores \<^verbatim>\<open>NaN\<close> as 0 and any other number modulo 256.
\<close>

definition getBytesFromHex :: "string \<Rightarrow> byte list result" where
  "getBytesFromHex encoded =
     (let matchArray = matchPairs encoded in
      if matchArray = [] then Throw (Error ''Invalid Hex String.'')
      else Ok (map (\<lambda>hex. case parseInt16 hex of None \<Rightarrow> 0 | Some n \<Rightarrow> word_of_int n)
                 matchArray))"

section \<open>index.ts: the class CognitoSRP\<close>

text \<open>
  What the class takes from outside: the SHA-256 and HMAC-SHA-256 of
  \<^verbatim>\<open>@aws-crypto/sha256-js\<close>, \<^verbatim>\<open>TextEncoder\<close>, \<^verbatim>\<open>atob\<close> and \<^verbatim>\<open>btoa\<close>, the random
  source \<^verbatim>\<open>crypto.getRandomValues\<close> (absent when neither \<^verbatim>\<open>window.crypto\<close> nor Node
  is found) and the clock.
\<close>

record date =
  getUTCDay :: int
  getUTCMonth :: int
  getUTCDate :: int
  getUTCHours :: int
  getUTCMinutes :: int
  getUTCSeconds :: int
  getUTCFullYear :: int

record env =
  sha256 :: "byte list \<Rightarrow> byte list"
  hmac_sha256 :: "byte list \<Rightarrow> byte list \<Rightarrow> byte list"
  encode :: "string \<Rightarrow> byte list"
  atob :: "string \<Rightarrow> string result"
  btoa :: "string \<Rightarrow> string"
  getRandomValues :: "(nat \<Rightarrow> byte list) option"
  now :: date

definition INIT_N :: string where
  "INIT_N =
     ''FFFFFFFFFFFFFFFFC90FDAA22168C234C4C6628B80DC1CD1'' @
     ''29024E088A67CC74020BBEA63B139B22514A08798E3404DD'' @
     ''EF9519B3CD3A431B302B0A6DF25F14374FE1356D6D51C245'' @
     ''E485B576625E7EC6F44C42E9A637ED6B0BFF5CB6F406B7ED'' @
     ''EE386BFB5A899FA5AE9F24117C4B1FE649286651ECE45B3D'' @
     ''C2007CB8A163BF0598DA48361C55D39A69163FA8FD24CF5F'' @
     ''83655D23DCA3AD961C62F356208552BB9ED529077096966D'' @
     ''670C354E4ABC9804F1746C08CA18217C32905E462E36CE3B'' @
     ''E39E772C180E86039B2783A2EC07A28FB5C55DF06F4C52C9'' @
     ''DE2BCBF6955817183995497CEA956AE515D2261898FA0510'' @
     ''15728E5A8AAAC42DAD33170D04507A33A85521ABDF1CBA64'' @
     ''ECFB850458DBEF0A8AEA71575D060C7DB3970F85A6E1E4C7'' @
     ''ABF5AE8CDB0933D71E8C94E04A25619DCEE3D2261AD2EE6B'' @
     ''F12FFA06D98A0864D87602733EC86A64521F2B18177B200C'' @
     ''BBE117577A615D6C770988C0BAD946E208E24FA074E5AB31'' @
     ''43DB5BFCE0FD108E4B82D120A93AD2CAFFFFFFFFFFFFFFFF''"

text \<open>The fields \<^verbatim>\<open>N = BigInt(`0x${this.INIT_N}`)\<close> and \<^verbatim>\<open>g = 2n\<close>.\<close>

definition srp_N :: int where
  "srp_N = hexValue INIT_N"

definition srp_g :: int where
  "srp_g = 2"

text \<open>
  The fields an instance holds besides the constants: \<^verbatim>\<open>userPoolName\<close>, \<^verbatim>\<open>k\<close>, and
  \<^verbatim>\<open>a\<close>, \<^verbatim>\<open>A\<close> and \<^verbatim>\<open>timestamp\<close>, which are \<^verbatim>\<open>undefined\<close> (\<open>None\<close>) until assigned.
\<close>

record cognitoSRP =
  userPoolName :: string
  srp_k :: int
  srp_a :: "int option"
  srp_A :: "int option"
  timestamp :: "string option"

record challengeParameters =
  USER_ID_FOR_SRP :: string
  SALT :: string
  SECRET_BLOCK :: string
  SRP_B :: string

text \<open>
  \<^verbatim>\<open>createHash(data, secret?)\<close>: a plain hash, or an HMAC when a secret is given. Where
  the class passes a string as data, the model passes its UTF-8 bytes (\<open>encode\<close>), as
  the hash does itself.
\<close>

definition createHash :: "env \<Rightarrow> byte list \<Rightarrow> byte list option \<Rightarrow> byte list" where
  "createHash e data secret =
     (case secret of None \<Rightarrow> sha256 e data | Some key \<Rightarrow> hmac_sha256 e key data)"

text \<open>The constructor with its field initialisers: \<^verbatim>\<open>k\<close> is the hash of \<^verbatim>\<open>N\<close> and \<^verbatim>\<open>g\<close>.\<close>

definition new_CognitoSRP :: "env \<Rightarrow> string \<Rightarrow> cognitoSRP result" where
  "new_CognitoSRP e name =
     rbind (getPaddedHex srp_N) (\<lambda>hexN.
     rbind (getPaddedHex srp_g) (\<lambda>hexg.
     rbind (getBytesFromHex (hexN @ hexg)) (\<lambda>bytes.
     rbind (BigInt_0x (getHexFromBytes (createHash e bytes None))) (\<lambda>k.
       Ok \<lparr>userPoolName = name, srp_k = k, srp_a = None, srp_A = None,
           timestamp = None\<rparr>))))"



text \<open>
  \<^verbatim>\<open>calculateU(B)\<close> in two parts: the value \<^verbatim>\<open>U\<close> it derives from the hash of
  \<^verbatim>\<open>A\<close> and \<^verbatim>\<open>B\<close>, and its test of that value.
\<close>

definition deriveU :: "env \<Rightarrow> cognitoSRP \<Rightarrow> int \<Rightarrow> int result" where
  "deriveU e this B =
     (case srp_A this of
        None \<Rightarrow> Throw TypeError
      | Some A \<Rightarrow>
          rbind (getPaddedHex A) (\<lambda>hexA.
          rbind (getPaddedHex B) (\<lambda>hexB.
            let hexAB = hexA @ hexB in
            rbind (getBytesFromHex hexAB) (\<lambda>bytes.
              let hashHex = getHexFromBytes (createHash e bytes None)
              in BigInt_0x hashHex))))"

definition calculateU :: "env \<Rightarrow> cognitoSRP \<Rightarrow> int \<Rightarrow> int result" where
  "calculateU e this B =
     rbind (deriveU e this B) (\<lambda>U.
       if U = 0 then Throw (Error ''U cannot be zero.'') else Ok U)"

text \<open>\<^verbatim>\<open>calculateS(x, B, U)\<close>; adding a \<^verbatim>\<open>bigint\<close> to an unassigned \<^verbatim>\<open>a\<close> is a \<^verbatim>\<open>TypeError\<close>.\<close>

definition calculateS :: "cognitoSRP \<Rightarrow> int \<Rightarrow> int \<Rightarrow> int \<Rightarrow> int result" where
  "calculateS this x B U =
     rbind (modPow srp_g x srp_N) (\<lambda>p.
       let t0 = p * srp_k this;
           t1 = B - t0
       in case srp_a this of
            None \<Rightarrow> Throw TypeError
          | Some a \<Rightarrow> let t2 = a + U * x in modPow t1 t2 srp_N)"

definition urlB64ToUint8Array :: "env \<Rightarrow> string \<Rightarrow> byte list result" where
  "urlB64ToUint8Array e base64String =
     (let padding = replicate ((4 - length base64String mod 4) mod 4) (CHR ''='');
          base64 = map (\<lambda>c. if c = CHR ''_'' then CHR ''/'' else c)
                     (map (\<lambda>c. if c = CHR ''-'' then CHR ''+'' else c) (base64String @ padding))
      in rbind (atob e base64) (\<lambda>rawData. Ok (map of_char rawData)))"

text \<open>\<^verbatim>\<open>Number.prototype.toString()\<close> of an integer, and \<^verbatim>\<open>createTimestamp\<close>.\<close>

function toDec_nat :: "int \<Rightarrow> string" where
  "toDec_nat n = (if n < 10 then [hexDigit n] else toDec_nat (n div 10) @ [hexDigit (n mod 10)])"
  by pat_completeness auto
termination
proof (relation "measure nat")
  show "wf (measure nat)" by simp
next
  fix n :: int
  assume "\<not> n < 10"
  then have "nat (n div 10) < nat n" by simp
  then show "(n div 10, n) \<in> measure nat" by simp
qed

declare toDec_nat.simps [simp del]

definition number_toString :: "int \<Rightarrow> string" where
  "number_toString v = (if v < 0 then CHR ''-'' # toDec_nat (- v) else toDec_nat v)"

definition lookup :: "string list \<Rightarrow> int \<Rightarrow> string" where
  "lookup xs i = (if 0 \<le> i \<and> i < int (length xs) then xs ! nat i else ''undefined'')"

definition createTimestamp :: "date \<Rightarrow> string" where
  "createTimestamp d =
     (let weekDay = lookup [''Sun'', ''Mon'', ''Tue'', ''Wed'', ''Thu'', ''Fri'', ''Sat''] (getUTCDay d);
          month = lookup [''Jan'', ''Feb'', ''Mar'', ''Apr'', ''May'', ''Jun'', ''Jul'', ''Aug'',
                          ''Sep'', ''Oct'', ''Nov'', ''Dec''] (getUTCMonth d);
          day = getUTCDate d;
          hours = padStart 2 (CHR ''0'') (number_toString (getUTCHours d));
          minutes = padStart 2 (CHR ''0'') (number_toString (getUTCMinutes d));
          seconds = padStart 2 (CHR ''0'') (number_toString (getUTCSeconds d));
          year = getUTCFullYear d
      in weekDay @ '' '' @ month @ '' '' @ number_toString day @ '' '' @ hours @ '':'' @ minutes
           @ '':'' @ seconds @ '' UTC '' @ number_toString year)"

text \<open>
  \<^verbatim>\<open>calculatePasswordClaimSignature(password, challengeParameters)\<close>: returns the
  instance with its new \<^verbatim>\<open>timestamp\<close>, and the signature.
\<close>

definition calculatePasswordClaimSignature ::
  "env \<Rightarrow> cognitoSRP \<Rightarrow> string \<Rightarrow> challengeParameters \<Rightarrow> (cognitoSRP \<times> string) result" where
  "calculatePasswordClaimSignature e this0 password cp =
     (let this = this0\<lparr>timestamp := Some (createTimestamp (now e))\<rparr> in
      rbind (BigInt_0x (SRP_B cp)) (\<lambda>serverBValue.
        if bigint_rem serverBValue srp_N = 0 then Throw (Error ''Invalid server public key'')
        else
          rbind (calculateU e this serverBValue) (\<lambda>U.
          rbind (BigInt_0x (SALT cp)) (\<lambda>serverSalt.
            let userPasswordHash =
                  createHash e (encode e (userPoolName this @ USER_ID_FOR_SRP cp @ '':'' @ password))
                    None
            in
            rbind (getPaddedHex serverSalt) (\<lambda>hexSalt.
            rbind (getBytesFromHex (hexSalt @ getHexFromBytes userPasswordHash)) (\<lambda>saltedBytes.
              let saltedUserPassHash = createHash e saltedBytes None in
              rbind (BigInt_0x (getHexFromBytes saltedUserPassHash)) (\<lambda>x.
              rbind (calculateS this x serverBValue U) (\<lambda>S.
              rbind (urlB64ToUint8Array e (SECRET_BLOCK cp)) (\<lambda>secretBlock.
                let concatenatedArray =
                      encode e (userPoolName this) @ encode e (USER_ID_FOR_SRP cp) @ secretBlock
                        @ encode e (createTimestamp (now e));
                    info = encode e ''Caldera Derived Key'' @ encode e [char_of (1 :: int)]
                in
                rbind (getPaddedHex S) (\<lambda>hexS.
                rbind (getBytesFromHex hexS) (\<lambda>bytesS.
                rbind (getPaddedHex U) (\<lambda>hexU.
                rbind (getBytesFromHex hexU) (\<lambda>bytesU.
                  let hmacSecret = createHash e bytesS (Some bytesU);
                      awsHashHmac = createHash e info (Some hmacSecret);
                      awsHash = createHash e concatenatedArray (Some (take 16 awsHashHmac))
                  in Ok (this, btoa e (map (\<lambda>byte. char_of (uint byte)) awsHash)))))))))))))))"

section \<open>The earlier class of index.ts\<close>

text \<open>
  Modelled from the spec: the \<^verbatim>\<open>BigInteger\<close> library that the earlier class imports
  (\<^verbatim>\<open>./BigInteger\<close>) is not among the sources. Its values are taken to be the exact
  signed integers of the specification's data model: \<^verbatim>\<open>abs\<close>, \<^verbatim>\<open>add\<close> and \<^verbatim>\<open>compareTo\<close>
  are those of \<open>int\<close>, \<^verbatim>\<open>toString(16)\<close> is lower-case hexadecimal without leading
  zeros, and \<^verbatim>\<open>new BigInteger(s, 16)\<close> reads hexadecimal digits. Over them this is
  \<^verbatim>\<open>getPaddedHex(bigInt: AuthBigInteger)\<close> of the earlier class (the first
  \<^verbatim>\<open>getPaddedHex\<close> of \<^verbatim>\<open>index.ts\<close>), which starts from \<^verbatim>\<open>bigInt.abs().toString(16)\<close>. Its
  argument is a \<^verbatim>\<open>BigInteger\<close> by type, so its "Not a BigInteger" error has no branch.
\<close>

definition getPaddedHex_BigInteger :: "int \<Rightarrow> string" where
  "getPaddedHex_BigInteger bigInt =
     (let hex = toHex_nat \<bar>bigInt\<bar>;
          hex = (if length hex mod 2 \<noteq> 0 then CHR ''0'' # hex else hex);
          hex = (if testHighNibble hex then ''00'' @ hex else hex)
      in if bigInt < 0 then
           let invertedHex = concat (map invertNibble hex);
               hex = toHex_nat (hexValue invertedHex + 1)
           in if startsWith (toUpperCase hex) ''FF8'' then drop 2 hex else hex
         else hex)"

section \<open>The specification's wording, for comparison with the code\<close>

text \<open>
  The canonical encoding \<open>pad\<close> as the specification words it: the absolute value in
  hexadecimal, one \<^verbatim>\<open>0\<close> in front of an odd number of digits, \<^verbatim>\<open>00\<close> in front of a
  leading nibble of 8 to f, and for a negative value the complement of every nibble,
  plus one, written in hexadecimal, with two characters stripped from a leading \<^verbatim>\<open>FF8\<close>.
\<close>

definition pad_spec :: "int \<Rightarrow> string" where
  "pad_spec v =
     (let hex = toHex_nat \<bar>v\<bar>;
          hex = (if odd (length hex) then CHR ''0'' # hex else hex);
          hex = (if 8 \<le> hexDigitValue (hd hex) then ''00'' @ hex else hex)
      in if v < 0 then
           let complemented = map (\<lambda>c. hexDigit (15 - hexDigitValue c)) hex;
               hex = toHex_nat (hexValue complemented + 1)
           in if startsWith (toUpperCase hex) ''FF8'' then drop 2 hex else hex
         else hex)"

text \<open>
  Reading hexadecimal text as a two's-complement signed byte string: an even, positive
  number of digits, negative when the top bit of the first byte is set.
\<close>

definition decodeSigned :: "string \<Rightarrow> int option" where
  "decodeSigned s =
     (if s \<noteq> [] \<and> even (length s) \<and> list_all isHexDigit s then
        Some (if 8 \<le> hexDigitValue (hd s) then hexValue s - 16 ^ length s else hexValue s)
      else None)"

section \<open>A small environment for concrete runs\<close>

text \<open>
  Stand-ins for the outside world, to run the class on concrete inputs: a hash that
  always returns the 32 bytes \<open>00 \<dots> 00 05\<close>, one that always returns 32 zero bytes, a
  keyed hash that returns 32 bytes \<open>07\<close>, identity encodings, and a random source that
  fills a buffer with \<open>00 \<dots> 00 03\<close>.
\<close>

definition demo_env :: env where
  "demo_env =
     \<lparr>sha256 = (\<lambda>data. replicate 31 0 @ [5]),
      hmac_sha256 = (\<lambda>key data. replicate 32 7),
      encode = map of_char,
      atob = Ok,
      btoa = id,
      getRandomValues = Some (\<lambda>n. replicate (n - 1) 0 @ [3]),
      now = \<lparr>getUTCDay = 2, getUTCMonth = 10, getUTCDate = 3, getUTCHours = 9,
              getUTCMinutes = 5, getUTCSeconds = 7, getUTCFullYear = 2026\<rparr>\<rparr>"

definition zero_hash_env :: env where
  "zero_hash_env = demo_env\<lparr>sha256 := (\<lambda>data. replicate 32 0)\<rparr>"

definition demo_this :: cognitoSRP where
  "demo_this =
     \<lparr>userPoolName = ''pool'', srp_k = 5, srp_a = Some 3, srp_A = Some 8, timestamp = None\<rparr>"
section \<open>The modular arithmetic of bigIntUtils.ts\<close>

lemma bigint_rem_nonneg: "0 \<le> a \<Longrightarrow> 0 < b \<Longrightarrow> bigint_rem a b = a mod b"
  by (cases "a = 0") (simp_all add: bigint_rem_def)

lemma bigint_div_nonneg: "0 \<le> a \<Longrightarrow> 0 < b \<Longrightarrow> bigint_div a b = a div b"
  by (cases "a = 0") (simp_all add: bigint_div_def)

lemma bigint_rem_neg: "a < 0 \<Longrightarrow> 0 < b \<Longrightarrow> bigint_rem a b = - ((- a) mod b)"
  by (simp add: bigint_rem_def)

lemma toZn_mod: "1 \<le> n \<Longrightarrow> toZn a n = Ok (a mod n)"
proof (cases "0 \<le> a")
  case True
  assume "1 \<le> n"
  then have n: "0 < n" by simp
  then have "\<not> a mod n < 0" by (simp add: not_less)
  with True n show ?thesis
    by (simp add: toZn_def bigint_rem_nonneg Let_def)
next
  case False
  assume n: "1 \<le> n"
  from False have a: "a < 0" by simp
  have r: "bigint_rem a n = - ((- a) mod n)" using a n by (simp add: bigint_rem_neg)
  show ?thesis
  proof (cases "(- a) mod n = 0")
    case True
    then have "a mod n = 0" by (metis dvd_minus_iff mod_eq_0_iff_dvd)
    with True r n show ?thesis by (simp add: toZn_def Let_def)
  next
    case False
    have "0 \<le> (- a) mod n" "(- a) mod n < n" using n by simp_all
    with False have "0 < (- a) mod n" by linarith
    moreover have "a mod n = n - (- a) mod n"
      using False n by (metis minus_minus zmod_zminus1_eq_if)
    ultimately show ?thesis using False r n by (simp add: toZn_def Let_def)
  qed
qed

lemma toZn_throw: "n < 1 \<Longrightarrow> toZn a n = Throw (RangeError ''n must be > 0'')"
  by (simp add: toZn_def)

lemma eGcd_loop_correct:
  "0 \<le> a \<Longrightarrow> 0 \<le> b \<Longrightarrow>
   \<exists>r. eGcd_loop a b x y u v = Some r \<and> egcd_g r = gcd a b \<and>
     (\<forall>a0 b0. b = a0 * x + b0 * y \<longrightarrow> a = a0 * u + b0 * v \<longrightarrow>
        egcd_g r = a0 * egcd_x r + b0 * egcd_y r)"
proof (induction "nat a" arbitrary: a b x y u v rule: less_induct)
  case less
  show ?case
  proof (cases "a = 0")
    case True
    with less.prems show ?thesis
      by (subst eGcd_loop.simps) simp
  next
    case False
    with less.prems have pos: "0 < a" by simp
    define q where "q = b div a"
    define r where "r = b mod a"
    have qr: "bigint_div b a = q" "bigint_rem b a = r"
      using pos less.prems by (simp_all add: q_def r_def bigint_div_nonneg bigint_rem_nonneg)
    have r_bounds: "0 \<le> r" "r < a" using pos by (simp_all add: r_def)
    then have "nat r < nat a" using pos by simp
    from less.hyps[OF this r_bounds(1), of a u v "x - u * q" "y - v * q"] pos
    obtain res where res: "eGcd_loop r a u v (x - u * q) (y - v * q) = Some res"
      "egcd_g res = gcd r a"
      "\<forall>a0 b0. a = a0 * u + b0 * v \<longrightarrow> r = a0 * (x - u * q) + b0 * (y - v * q) \<longrightarrow>
         egcd_g res = a0 * egcd_x res + b0 * egcd_y res"
      by auto
    have unfold: "eGcd_loop a b x y u v = eGcd_loop r a u v (x - u * q) (y - v * q)"
      using False by (subst eGcd_loop.simps) (simp add: qr Let_def)
    have g: "gcd r a = gcd a b"
      unfolding r_def by (metis gcd.commute gcd_red_int)
    have br: "r = b - q * a"
      unfolding r_def q_def by (simp add: minus_div_mult_eq_mod)
    have "\<forall>a0 b0. b = a0 * x + b0 * y \<longrightarrow> a = a0 * u + b0 * v \<longrightarrow>
        egcd_g res = a0 * egcd_x res + b0 * egcd_y res"
    proof (intro allI impI)
      fix a0 b0 assume b: "b = a0 * x + b0 * y" and a: "a = a0 * u + b0 * v"
      have "r = a0 * (x - u * q) + b0 * (y - v * q)"
        unfolding br by (subst b, subst a) (simp add: algebra_simps)
      with res(3) a show "egcd_g res = a0 * egcd_x res + b0 * egcd_y res" by blast
    qed
    with res(1,2) g unfold show ?thesis by simp
  qed
qed

lemma eGcd_correct:
  assumes "1 \<le> a" "1 \<le> b"
  shows "\<exists>r. eGcd a b = Ok r \<and> egcd_g r = gcd a b \<and> egcd_g r = a * egcd_x r + b * egcd_y r"
proof -
  from eGcd_loop_correct[of a b 0 1 1 0] assms
  obtain r where r: "eGcd_loop a b 0 1 1 0 = Some r" "egcd_g r = gcd a b"
    "\<forall>a0 b0. b = a0 * 0 + b0 * 1 \<longrightarrow> a = a0 * 1 + b0 * 0 \<longrightarrow>
        egcd_g r = a0 * egcd_x r + b0 * egcd_y r"
    by auto
  from r(3) have "egcd_g r = a * egcd_x r + b * egcd_y r" by simp
  with r(1,2) assms show ?thesis by (simp add: eGcd_def)
qed

lemma modPow_loop_correct:
  "0 \<le> y \<Longrightarrow> 0 \<le> x \<Longrightarrow> 0 \<le> r \<Longrightarrow> r < m \<Longrightarrow>
   modPow_loop r x y m = Some ((r * x ^ nat y) mod m)"
proof (induction "nat y" arbitrary: r x y rule: less_induct)
  case less
  have m: "0 < m" using less.prems by simp
  show ?case
  proof (cases "y = 0")
    case True
    with less.prems show ?thesis
      by (subst modPow_loop.simps) simp
  next
    case False
    with less.prems have pos: "0 < y" by simp
    define r' where "r' = (if y mod 2 = 1 then (r * x) mod m else r)"
    define x' where "x' = (x ^ 2) mod m"
    define y' where "y' = y div 2"
    have unfold: "modPow_loop r x y m = modPow_loop r' x' y' m"
      using pos less.prems m
      by (subst modPow_loop.simps)
         (simp add: r'_def x'_def y'_def bigint_rem_nonneg bigint_div_nonneg)
    have y': "0 \<le> y'" "nat y' < nat y" using pos by (simp_all add: y'_def)
    have x': "0 \<le> x'" using m by (simp add: x'_def)
    have r': "0 \<le> r'" "r' < m" using m less.prems by (simp_all add: r'_def)
    from less.hyps[OF y'(2) y'(1) x' r']
    have IH: "modPow_loop r' x' y' m = Some ((r' * x' ^ nat y') mod m)" .
    have ny: "nat y = 2 * nat y' + nat (y mod 2)"
      using pos unfolding y'_def by (simp add: nat_add_distrib nat_mult_distrib nat_div_distrib nat_mod_distrib)
    have xp: "x' ^ nat y' mod m = x ^ (2 * nat y') mod m"
      unfolding x'_def by (simp add: power_mod power_mult)
    have "(r' * x' ^ nat y') mod m = (r * x ^ nat y) mod m"
    proof (cases "y mod 2 = 1")
      case True
      then have "r' = (r * x) mod m" by (simp add: r'_def)
      then have "(r' * x' ^ nat y') mod m = ((r * x) mod m * (x ^ (2 * nat y') mod m)) mod m"
        using xp by (metis mod_mult_right_eq)
      also have "\<dots> = (r * x * x ^ (2 * nat y')) mod m"
        by (simp add: mod_mult_eq)
      also have "\<dots> = (r * x ^ nat y) mod m"
        using True ny by (simp add: mult.assoc)
      finally show ?thesis .
    next
      case False
      then have y0: "y mod 2 = 0" by presburger
      then have "r' = r" by (simp add: r'_def)
      then have "(r' * x' ^ nat y') mod m = (r * (x ^ (2 * nat y') mod m)) mod m"
        using xp by (metis mod_mult_right_eq)
      also have "\<dots> = (r * x ^ (2 * nat y')) mod m"
        by (simp add: mod_mult_right_eq)
      also have "\<dots> = (r * x ^ nat y) mod m"
        using y0 ny by simp
      finally show ?thesis .
    qed
    with IH unfold show ?thesis by simp
  qed
qed

lemma modPow_nonneg:
  assumes "0 \<le> y" "1 < m"
  shows "modPow x y m = Ok (x ^ nat y mod m)"
proof -
  have "modPow_loop 1 (x mod m) y m = Some ((1 * (x mod m) ^ nat y) mod m)"
    using assms by (intro modPow_loop_correct) simp_all
  then have "modPow_loop 1 (x mod m) y m = Some (x ^ nat y mod m)"
    by (simp add: power_mod)
  with assms show ?thesis
    by (subst modPow.simps) (simp add: toZn_mod rbind_def)
qed

lemma modPow_one: "modPow x y 1 = Ok 0"
  by (subst modPow.simps) simp

lemma modPow_bad_modulus: "m < 1 \<Longrightarrow> modPow x y m = Throw (RangeError ''n must be > 0'')"
  by (subst modPow.simps) simp

lemma modInv_coprime:
  assumes "1 < n" "coprime a n"
  shows "\<exists>r. modInv a n = Ok r \<and> 0 \<le> r \<and> r < n \<and> (r * a) mod n = 1"
proof -
  have az: "toZn a n = Ok (a mod n)" using assms by (simp add: toZn_mod)
  have cop: "coprime (a mod n) n" using assms by (simp add: coprime_commute)
  have "a mod n \<noteq> 0"
  proof
    assume "a mod n = 0"
    with cop have "coprime 0 n" by simp
    with assms show False by simp
  qed
  moreover have "0 \<le> a mod n" using assms by simp
  ultimately have "1 \<le> a mod n" by linarith
  from eGcd_correct[OF this, of n] assms
  obtain e where e: "eGcd (a mod n) n = Ok e" "egcd_g e = gcd (a mod n) n"
    "egcd_g e = (a mod n) * egcd_x e + n * egcd_y e" by auto
  from cop e(2) have g1: "egcd_g e = 1" by (simp add: coprime_iff_gcd_eq_1)
  have inv: "modInv a n = Ok (egcd_x e mod n)"
    using az e(1) g1 assms by (simp add: modInv_def rbind_def toZn_mod)
  have "((egcd_x e mod n) * a) mod n = ((a mod n) * egcd_x e + n * egcd_y e) mod n"
    by (metis mod_mult_eq  mod_mod_trivial mult.commute mod_mult_self2)
  also have "\<dots> = 1 mod n" using e(3) g1 by simp
  also have "\<dots> = 1" using assms by simp
  finally have "((egcd_x e mod n) * a) mod n = 1" .
  with inv assms show ?thesis by simp
qed

lemma modInv_not_coprime:
  assumes "1 < n" "\<not> coprime a n"
  shows "\<exists>msg. modInv a n = Throw (RangeError msg)"
proof (cases "a mod n = 0")
  case True
  then show ?thesis using assms
    by (simp add: modInv_def rbind_def toZn_mod eGcd_def)
next
  case False
  moreover have "0 \<le> a mod n" using assms by simp
  ultimately have "1 \<le> a mod n" by linarith
  from eGcd_correct[OF this, of n] assms
  obtain e where e: "eGcd (a mod n) n = Ok e" "egcd_g e = gcd (a mod n) n" by auto
  have "gcd (a mod n) n = gcd a n" by (metis gcd.commute gcd_red_int)
  with assms e(2) have "egcd_g e \<noteq> 1" by (simp add: coprime_iff_gcd_eq_1)
  with e(1) assms show ?thesis
    by (simp add: modInv_def rbind_def toZn_mod)
qed

lemma modPow_negative:
  assumes "y < 0" "1 < m"
  shows "modPow x y m = modInv (x ^ nat (- y) mod m) m"
proof -
  have "modPow (x mod m) (- y) m = Ok ((x mod m) ^ nat (- y) mod m)"
    using assms by (intro modPow_nonneg) simp_all
  then have "modPow (x mod m) (- y) m = Ok (x ^ nat (- y) mod m)"
    by (simp add: power_mod)
  with assms show ?thesis
    by (subst modPow.simps) (simp add: toZn_mod rbind_def)
qed

lemma bigint_rem_abs_less: "a \<noteq> 0 \<Longrightarrow> \<bar>bigint_rem b a\<bar> < \<bar>a\<bar>"
  by (simp add: bigint_rem_def abs_mult abs_sgn_eq)

lemma eGcd_loop_terminates: "\<exists>t. eGcd_loop a b x y u v = Some t"
proof (induction "nat \<bar>a\<bar>" arbitrary: a b x y u v rule: less_induct)
  case less
  show ?case
  proof (cases "a = 0")
    case True
    then show ?thesis by (subst eGcd_loop.simps) simp
  next
    case False
    then have "nat \<bar>bigint_rem b a\<bar> < nat \<bar>a\<bar>"
      using bigint_rem_abs_less[of a b] by simp
    from less.hyps[OF this] False show ?thesis
      by (subst eGcd_loop.simps) (simp add: Let_def)
  qed
qed

lemma modPow_loop_terminates: "\<exists>t. modPow_loop r x y m = Some t"
proof (induction "nat y" arbitrary: r x y rule: less_induct)
  case less
  show ?case
  proof (cases "0 < y")
    case False
    then show ?thesis by (subst modPow_loop.simps) simp
  next
    case True
    then have "nat (bigint_div y 2) < nat y"
      by (simp add: bigint_div_nonneg)
    from less.hyps[OF this] True show ?thesis
      by (subst modPow_loop.simps) simp
  qed
qed

lemma modPow_negative_coprime:
  assumes "e < 0" "1 < m" "coprime b m"
  shows "\<exists>r p. modPow b e m = Ok r \<and> modPow b (- e) m = Ok p \<and> 0 \<le> r \<and> r < m \<and>
           0 \<le> p \<and> (r * p) mod m = 1"
proof -
  define p where "p = b ^ nat (- e) mod m"
  have p: "modPow b (- e) m = Ok p" "0 \<le> p"
    using assms by (simp_all add: p_def modPow_nonneg)
  have "coprime (b ^ nat (- e)) m" using assms by simp
  then have "coprime p m" unfolding p_def using assms(2) by (simp add: coprime_mod_left_iff)
  from modInv_coprime[OF assms(2) this]
  obtain r where r: "modInv p m = Ok r" "0 \<le> r" "r < m" "(r * p) mod m = 1" by auto
  have "modPow b e m = Ok r"
    using modPow_negative[OF assms(1,2), of b] r(1) by (simp add: p_def)
  with p r show ?thesis by auto
qed

lemma modPow_negative_not_coprime:
  assumes "e < 0" "1 < m" "\<not> coprime b m"
  shows "\<exists>msg. modPow b e m = Throw (RangeError msg)"
proof -
  have "0 < nat (- e)" using assms by simp
  then have "\<not> coprime (b ^ nat (- e)) m"
    using assms by (simp add: coprime_power_left_iff)
  then have "\<not> coprime (b ^ nat (- e) mod m) m"
    using assms(2) by (simp add: coprime_mod_left_iff)
  from modInv_not_coprime[OF assms(2) this] show ?thesis
    using modPow_negative[OF assms(1,2), of b] by simp
qed

section \<open>Claims about bigIntUtils.ts\<close>

text \<open>
  C4. For every base \<open>b\<close>, exponent \<open>e \<ge> 0\<close> and modulus \<open>m \<ge> 1\<close>, \<open>modPow b e m\<close>
  returns \<open>b ^ e mod m\<close>, a value of \<open>[0, m)\<close> (\<open>mod\<close> is the true modulo, so a
  negative base is folded into the positive residues); \<open>modPow\<close> returns 0 whenever
  \<open>m = 1\<close>, and \<open>modPow x 0 m\<close> is 1 for every \<open>m > 1\<close>.
\<close>

theorem modPow_spec:
  "(0 \<le> e \<and> 1 \<le> m \<longrightarrow>
      modPow b e m = Ok (b ^ nat e mod m) \<and> 0 \<le> b ^ nat e mod m \<and> b ^ nat e mod m < m) \<and>
   modPow b e' 1 = Ok 0 \<and>
   (1 < m \<longrightarrow> modPow x 0 m = Ok 1)"
proof (intro conjI impI)
  assume h: "0 \<le> e \<and> 1 \<le> m"
  show "modPow b e m = Ok (b ^ nat e mod m)"
  proof (cases "m = 1")
    case True
    then show ?thesis by (simp add: modPow_one)
  next
    case False
    with h have "1 < m" by simp
    with h show ?thesis by (simp add: modPow_nonneg)
  qed
  from h show "0 \<le> b ^ nat e mod m" by simp
  from h show "b ^ nat e mod m < m" by simp
next
  show "modPow b e' 1 = Ok 0" by (rule modPow_one)
next
  assume "1 < m"
  then show "modPow x 0 m = Ok 1" by (simp add: modPow_nonneg)
qed

theorem modPow_spec_witness:
  "modPow (- 3) 5 7 = Ok 2 \<and> modPow (- 3) (- 4) 1 = Ok 0 \<and> modPow 12 0 7 = Ok 1"
  using modPow_spec [of 5 7 "- 3" "- 4" 12] by simp

text \<open>
  C5. For every base \<open>b\<close>, exponent \<open>e < 0\<close> and modulus \<open>m > 1\<close>: when
  \<open>gcd b m = 1\<close>, \<open>modPow b e m\<close> is the inverse of \<open>modPow b (- e) m\<close> modulo \<open>m\<close>
  (their product is 1 modulo \<open>m\<close>, with the remainder of the program and with the
  true modulo alike); when \<open>gcd b m \<noteq> 1\<close> the call throws a \<^verbatim>\<open>RangeError\<close>.
\<close>

theorem modPow_negative_spec:
  "e < 0 \<Longrightarrow> 1 < m \<Longrightarrow>
   (gcd b m = 1 \<longrightarrow>
      (\<exists>r p. modPow b e m = Ok r \<and> modPow b (- e) m = Ok p \<and>
             bigint_rem (r * p) m = 1 \<and> (r * p) mod m = 1)) \<and>
   (gcd b m \<noteq> 1 \<longrightarrow> (\<exists>msg. modPow b e m = Throw (RangeError msg)))"
proof (intro conjI impI)
  assume h: "e < 0" "1 < m" and g: "gcd b m = 1"
  then have "coprime b m" by (simp add: coprime_iff_gcd_eq_1)
  from modPow_negative_coprime[OF h this]
  obtain r p where rp: "modPow b e m = Ok r" "modPow b (- e) m = Ok p" "0 \<le> r" "0 \<le> p"
    "(r * p) mod m = 1" by auto
  have "bigint_rem (r * p) m = (r * p) mod m"
    using rp h by (intro bigint_rem_nonneg) simp_all
  with rp show "\<exists>r p. modPow b e m = Ok r \<and> modPow b (- e) m = Ok p \<and>
             bigint_rem (r * p) m = 1 \<and> (r * p) mod m = 1"
    by auto
next
  assume h: "e < 0" "1 < m" and g: "gcd b m \<noteq> 1"
  then have "\<not> coprime b m" by (simp add: coprime_iff_gcd_eq_1)
  from modPow_negative_not_coprime[OF h this]
  show "\<exists>msg. modPow b e m = Throw (RangeError msg)" .
qed

theorem modPow_negative_spec_witness:
  "(- 1 :: int) < 0 \<and> (1 :: int) < 7 \<and> gcd (3 :: int) 7 = 1 \<and> gcd (6 :: int) 4 \<noteq> 1 \<and>
   (\<exists>r p. modPow 3 (- 1) 7 = Ok r \<and> modPow 3 (- (- 1)) 7 = Ok p \<and>
          bigint_rem (r * p) 7 = 1 \<and> (r * p) mod 7 = 1) \<and>
   (\<exists>msg. modPow 6 (- 1) 4 = Throw (RangeError msg))"
proof -
  have g: "gcd (3 :: int) 7 = 1" "gcd (6 :: int) 4 \<noteq> 1" by code_simp+
  show ?thesis
    using modPow_negative_spec [of "- 1" 7 3] modPow_negative_spec [of "- 1" 4 6] g by simp
qed

text \<open>
  C8. For all \<open>a \<ge> 1\<close> and \<open>b \<ge> 1\<close>, \<open>eGcd a b\<close> returns \<open>g\<close>, \<open>x\<close> and \<open>y\<close> with
  \<open>g = gcd a b\<close> and \<open>g = a * x + b * y\<close>; when \<open>a < 1\<close> or \<open>b < 1\<close> it throws a
  \<^verbatim>\<open>RangeError\<close>.
\<close>

theorem eGcd_spec:
  "(1 \<le> a \<and> 1 \<le> b \<longrightarrow>
      (\<exists>r. eGcd a b = Ok r \<and> egcd_g r = gcd a b \<and>
           egcd_g r = a * egcd_x r + b * egcd_y r)) \<and>
   (a < 1 \<or> b < 1 \<longrightarrow> eGcd a b = Throw (RangeError ''a and b must be > 0''))"
proof (intro conjI impI)
  assume "1 \<le> a \<and> 1 \<le> b"
  then show "\<exists>r. eGcd a b = Ok r \<and> egcd_g r = gcd a b \<and>
           egcd_g r = a * egcd_x r + b * egcd_y r"
    using eGcd_correct[of a b] by simp
next
  assume "a < 1 \<or> b < 1"
  then show "eGcd a b = Throw (RangeError ''a and b must be > 0'')"
    by (auto simp: eGcd_def)
qed

theorem eGcd_spec_witness:
  "(\<exists>r. eGcd 12 18 = Ok r \<and> egcd_g r = gcd 12 18 \<and>
        egcd_g r = 12 * egcd_x r + 18 * egcd_y r) \<and>
   eGcd 0 5 = Throw (RangeError ''a and b must be > 0'')"
  using eGcd_spec [of 12 18] eGcd_spec [of 0 5] by simp

text \<open>
  C10. For every base, every exponent \<open>e \<ge> 0\<close> and every modulus \<open>m \<ge> 1\<close> the
  square-and-multiply loop of \<open>modPow\<close> ends (each round halves the exponent,
  which stays non-negative), and for all \<open>a \<ge> 1\<close>, \<open>b \<ge> 1\<close> the loop of \<open>eGcd\<close>
  ends (each round replaces its first variable by a smaller non-negative one); so
  both functions return a value on these arguments.
\<close>

theorem loops_terminate:
  "(0 \<le> e \<and> 1 \<le> m \<longrightarrow>
      (\<exists>t. modPow_loop r x e m = Some t) \<and> (\<exists>v. modPow b e m = Ok v)) \<and>
   (0 < e \<longrightarrow> 0 \<le> bigint_div e 2 \<and> bigint_div e 2 < e) \<and>
   (1 \<le> a \<and> 1 \<le> c \<longrightarrow>
      (\<exists>t. eGcd_loop a c 0 1 1 0 = Some t) \<and> (\<exists>v. eGcd a c = Ok v)) \<and>
   (0 < a \<and> 0 \<le> c \<longrightarrow> 0 \<le> bigint_rem c a \<and> bigint_rem c a < a)"
proof (intro conjI impI)
  show "\<exists>t. modPow_loop r x e m = Some t" by (rule modPow_loop_terminates)
next
  assume h: "0 \<le> e \<and> 1 \<le> m"
  show "\<exists>v. modPow b e m = Ok v"
  proof (cases "m = 1")
    case True
    then show ?thesis by (simp add: modPow_one)
  next
    case False
    with h have "1 < m" by simp
    with h show ?thesis by (simp add: modPow_nonneg)
  qed
next
  assume "0 < e"
  then show "0 \<le> bigint_div e 2" "bigint_div e 2 < e"
    by (simp_all add: bigint_div_nonneg)
next
  show "\<exists>t. eGcd_loop a c 0 1 1 0 = Some t" by (rule eGcd_loop_terminates)
next
  assume "1 \<le> a \<and> 1 \<le> c"
  then show "\<exists>v. eGcd a c = Ok v"
    using eGcd_correct[of a c] by auto
next
  assume "0 < a \<and> 0 \<le> c"
  then show "0 \<le> bigint_rem c a" "bigint_rem c a < a"
    by (simp_all add: bigint_rem_nonneg)
qed

theorem loops_terminate_witness:
  "((\<exists>t. modPow_loop 1 3 5 7 = Some t) \<and> (\<exists>v. modPow 3 5 7 = Ok v)) \<and>
   (0 \<le> bigint_div 5 2 \<and> bigint_div 5 2 < 5) \<and>
   ((\<exists>t. eGcd_loop 12 18 0 1 1 0 = Some t) \<and> (\<exists>v. eGcd 12 18 = Ok v)) \<and>
   (0 \<le> bigint_rem 18 12 \<and> bigint_rem 18 12 < 12)"
  using loops_terminate [of 5 7 1 3 3 12 18] by simp

section \<open>Hexadecimal text\<close>

lemma hexDigitValue_bounds: "0 \<le> hexDigitValue c \<and> hexDigitValue c < 16"
  by (simp add: hexDigitValue_def Let_def)

lemma hexDigit_value: "0 \<le> n \<Longrightarrow> n < 16 \<Longrightarrow> hexDigitValue (hexDigit n) = n"
  by (simp add: hexDigitValue_def hexDigit_def Let_def)

lemma hexDigit_isHex: "0 \<le> n \<Longrightarrow> n < 16 \<Longrightarrow> isHexDigit (hexDigit n)"
  by (simp add: isHexDigit_def hexDigit_def Let_def)

lemma hexValue_Nil: "hexValue [] = 0"
  by (simp add: hexValue_def)

lemma hexValue_snoc: "hexValue (s @ [c]) = 16 * hexValue s + hexDigitValue c"
  by (simp add: hexValue_def)

lemma hexValue_append: "hexValue (s @ t) = hexValue s * 16 ^ length t + hexValue t"
proof (induction t rule: rev_induct)
  case Nil
  then show ?case by (simp add: hexValue_Nil)
next
  case (snoc c t)
  have "hexValue (s @ t @ [c]) = 16 * hexValue (s @ t) + hexDigitValue c"
    using hexValue_snoc[of "s @ t" c] by simp
  with snoc show ?case by (simp add: hexValue_snoc algebra_simps)
qed

lemma hexValue_Cons: "hexValue (c # t) = hexDigitValue c * 16 ^ length t + hexValue t"
  using hexValue_append[of "[c]" t] hexValue_snoc[of "[]" c] by (simp add: hexValue_Nil)

lemma hexValue_bounds: "0 \<le> hexValue s \<and> hexValue s < 16 ^ length s"
proof (induction s rule: rev_induct)
  case Nil
  then show ?case by (simp add: hexValue_Nil)
next
  case (snoc c s)
  with hexDigitValue_bounds[of c] show ?case by (simp add: hexValue_snoc)
qed

lemma toHex_nat_small: "n < 16 \<Longrightarrow> toHex_nat n = [hexDigit n]"
  by (subst toHex_nat.simps) simp

lemma toHex_nat_big: "\<not> n < 16 \<Longrightarrow> toHex_nat n = toHex_nat (n div 16) @ [hexDigit (n mod 16)]"
  by (subst toHex_nat.simps) simp

lemma toHex_nat_props:
  "0 \<le> n \<Longrightarrow>
   toHex_nat n \<noteq> [] \<and> list_all isHexDigit (toHex_nat n) \<and> hexValue (toHex_nat n) = n \<and>
   n < 16 ^ length (toHex_nat n) \<and> (0 < n \<longrightarrow> 16 ^ (length (toHex_nat n) - 1) \<le> n)"
proof (induction n rule: toHex_nat.induct)
  case (1 n)
  show ?case
  proof (cases "n < 16")
    case True
    with "1.prems" show ?thesis
      by (simp add: toHex_nat_small hexDigit_isHex hexValue_Cons hexValue_Nil hexDigit_value)
  next
    case False
    define q where "q = n div 16"
    define d where "d = n mod 16"
    have q: "0 < q" "0 \<le> q" using False by (simp_all add: q_def)
    have d: "0 \<le> d" "d < 16" by (simp_all add: d_def)
    have n: "n = 16 * q + d" by (simp add: q_def d_def)
    from "1.IH"[OF False] q
    have IH: "toHex_nat q \<noteq> []" "list_all isHexDigit (toHex_nat q)" "hexValue (toHex_nat q) = q"
      "q < 16 ^ length (toHex_nat q)" "16 ^ (length (toHex_nat q) - 1) \<le> q"
      by (simp_all add: q_def)
    have eq: "toHex_nat n = toHex_nat q @ [hexDigit d]"
      using False by (simp add: toHex_nat_big q_def d_def)
    have len: "length (toHex_nat q) = Suc (length (toHex_nat q) - 1)"
      using IH(1) by (cases "toHex_nat q") simp_all
    have len_n: "length (toHex_nat n) = Suc (length (toHex_nat q))"
      by (simp add: eq)
    have "n < 16 * 16 ^ length (toHex_nat q)"
      using IH(4) d n by linarith
    then have up: "n < 16 ^ length (toHex_nat n)"
      by (simp add: len_n)
    have "16 ^ length (toHex_nat q) \<le> 16 * q"
      using IH(5) by (subst len) simp
    then have "16 ^ length (toHex_nat q) \<le> n"
      using d n by linarith
    then have low: "16 ^ (length (toHex_nat n) - 1) \<le> n"
      by (simp add: len_n)
    have "hexValue (toHex_nat n) = 16 * q + d"
      using IH(3) d by (simp add: eq hexValue_snoc hexDigit_value)
    then have "hexValue (toHex_nat n) = n"
      using n by simp
    moreover have "list_all isHexDigit (toHex_nat n)"
      using IH(2) d by (simp add: eq hexDigit_isHex)
    moreover have "toHex_nat n \<noteq> []" by (simp add: eq)
    ultimately show ?thesis using up low by simp
  qed
qed

lemma toHex_nat_length:
  assumes "0 < n" "16 ^ (L - 1) \<le> n" "n < 16 ^ L" "0 < L"
  shows "length (toHex_nat n) = L"
proof -
  define k where "k = length (toHex_nat n)"
  have p: "n < 16 ^ k" "(16 :: int) ^ (k - 1) \<le> n" "toHex_nat n \<noteq> []"
    using toHex_nat_props[of n] assms(1) by (simp_all add: k_def)
  then have k: "0 < k" by (simp add: k_def)
  have "(16 :: int) ^ (L - 1) < 16 ^ k" using assms(2) p(1) by linarith
  then have "L - 1 < k" by simp
  moreover have "(16 :: int) ^ (k - 1) < 16 ^ L" using assms(3) p(2) by linarith
  then have "k - 1 < L" by simp
  ultimately show ?thesis using k assms(4) unfolding k_def by linarith
qed

lemma hex_not_space: "isHexDigit c \<Longrightarrow> \<not> isStrWhiteSpaceChar c"
  by (auto simp: isHexDigit_def isStrWhiteSpaceChar_def Let_def)

lemma trimEnd_hex: "list_all isHexDigit s \<Longrightarrow> trimEnd s = s"
proof (cases s rule: rev_cases)
  case Nil
  then show ?thesis by (simp add: trimEnd_def)
next
  case (snoc t c)
  assume "list_all isHexDigit s"
  with snoc have "\<not> isStrWhiteSpaceChar c" by (simp add: hex_not_space)
  with snoc show ?thesis by (simp add: trimEnd_def)
qed

lemma BigInt_0x_hex: "s \<noteq> [] \<Longrightarrow> list_all isHexDigit s \<Longrightarrow> BigInt_0x s = Ok (hexValue s)"
  by (simp add: BigInt_0x_def trimEnd_hex)

lemma hex_not_sign: "isHexDigit c \<Longrightarrow> c \<noteq> CHR ''-'' \<and> c \<noteq> CHR ''+''"
  by (auto simp: isHexDigit_def)

lemma parseInt16_digit: "isHexDigit c \<Longrightarrow> parseInt16 [c] = Some (hexDigitValue c)"
  using hex_not_sign[of c] hex_not_space[of c]
  by (simp add: parseInt16_def trimStart_def hexValue_Cons hexValue_Nil)

lemma toUpperCase_hexDigit:
  assumes "0 \<le> n" "n < 16"
  shows "\<exists>c. toUpperCase [hexDigit n] = [c] \<and> isHexDigit c \<and> hexDigitValue c = n"
proof (cases "n < 10")
  case True
  with assms show ?thesis
    by (simp add: toUpperCase_def hexDigit_def isHexDigit_def hexDigitValue_def Let_def)
next
  case False
  with assms show ?thesis
    by (simp add: toUpperCase_def hexDigit_def isHexDigit_def hexDigitValue_def Let_def)
qed

lemma invertNibble_digit:
  assumes "isHexDigit c"
  shows "\<exists>c'. invertNibble c = [c'] \<and> isHexDigit c' \<and> hexDigitValue c' = 15 - hexDigitValue c"
proof -
  define d where "d = hexDigitValue c"
  have d: "0 \<le> d" "d < 16" using hexDigitValue_bounds[of c] by (simp_all add: d_def)
  then have m: "(- d - 1) mod 16 = 15 - d"
    by presburger
  have "invertNibble c = toUpperCase [hexDigit (15 - d)]"
    using assms d by (simp add: invertNibble_def parseInt16_digit d_def[symmetric] m
        bigint_toString16_def toHex_nat_small)
  with toUpperCase_hexDigit[of "15 - d"] d show ?thesis
    by (auto simp: d_def)
qed

lemma invertNibble_minus: "invertNibble (CHR ''-'') = ''F''"
  by code_simp

lemma invertNibble_zero: "invertNibble (CHR ''0'') = ''F''"
  by code_simp

lemma inverted_digits:
  "list_all isHexDigit ds \<Longrightarrow>
   length (concat (map invertNibble ds)) = length ds \<and>
   list_all isHexDigit (concat (map invertNibble ds)) \<and>
   hexValue (concat (map invertNibble ds)) = 16 ^ length ds - 1 - hexValue ds"
proof (induction ds)
  case Nil
  then show ?case by (simp add: hexValue_Nil)
next
  case (Cons c ds)
  then have c: "isHexDigit c" and ds: "list_all isHexDigit ds" by simp_all
  from invertNibble_digit[OF c] obtain c' where
    c': "invertNibble c = [c']" "isHexDigit c'" "hexDigitValue c' = 15 - hexDigitValue c" by auto
  from Cons.IH[OF ds] have IH: "length (concat (map invertNibble ds)) = length ds"
    "list_all isHexDigit (concat (map invertNibble ds))"
    "hexValue (concat (map invertNibble ds)) = 16 ^ length ds - 1 - hexValue ds" by simp_all
  have "hexValue (c' # concat (map invertNibble ds)) =
        16 * 16 ^ length ds - 1 - (hexDigitValue c * 16 ^ length ds + hexValue ds)"
    by (simp add: hexValue_Cons IH c'(3) algebra_simps)
  with c' IH show ?case by (simp add: hexValue_Cons)
qed

lemma testHighNibble_hex:
  "isHexDigit c \<Longrightarrow> testHighNibble (c # s) = (8 \<le> hexDigitValue c)"
  by (auto simp: testHighNibble_def isHexDigit_def hexDigitValue_def Let_def)

lemma decodeSigned_value:
  assumes "s \<noteq> []" "even (length s)" "list_all isHexDigit s"
  shows "decodeSigned s =
     Some (if 8 * 16 ^ (length s - 1) \<le> hexValue s then hexValue s - 16 ^ length s
           else hexValue s)"
proof -
  from assms(1) obtain c t where s: "s = c # t" by (cases s) auto
  have v: "hexValue s = hexDigitValue c * 16 ^ length t + hexValue t"
    by (simp add: s hexValue_Cons)
  have t: "0 \<le> hexValue t" "hexValue t < 16 ^ length t"
    using hexValue_bounds[of t] by simp_all
  have p: "(0 :: int) < 16 ^ length t" by simp
  have "(8 \<le> hexDigitValue c) = (8 * 16 ^ length t \<le> hexValue s)"
  proof
    assume "8 \<le> hexDigitValue c"
    then have "8 * 16 ^ length t \<le> hexDigitValue c * 16 ^ length t"
      using p by (simp add: mult_right_mono)
    with t v show "8 * 16 ^ length t \<le> hexValue s" by linarith
  next
    assume h: "8 * 16 ^ length t \<le> hexValue s"
    show "8 \<le> hexDigitValue c"
    proof (rule ccontr)
      assume "\<not> 8 \<le> hexDigitValue c"
      then have "hexDigitValue c \<le> 7" by simp
      then have "hexDigitValue c * 16 ^ length t \<le> 7 * 16 ^ length t"
        using p by (simp add: mult_right_mono)
      with t v h show False by linarith
    qed
  qed
  with assms show ?thesis by (simp add: decodeSigned_def s)
qed

lemma zero_char_hex: "isHexDigit (CHR ''0'') \<and> hexDigitValue (CHR ''0'') = 0"
  by (simp add: isHexDigit_def hexDigitValue_def)

lemma F_char_hex: "isHexDigit (CHR ''F'') \<and> hexDigitValue (CHR ''F'') = 15"
  by (simp add: isHexDigit_def hexDigitValue_def)

lemma getPaddedHex_nonneg:
  assumes "0 \<le> v"
  shows "\<exists>s. getPaddedHex v = Ok s \<and> s \<noteq> [] \<and> even (length s) \<and> list_all isHexDigit s \<and>
            hexValue s = v \<and> hexDigitValue (hd s) < 8"
proof -
  define hex0 where "hex0 = toHex_nat v"
  define hex1 where "hex1 = (if length hex0 mod 2 \<noteq> 0 then CHR ''0'' # hex0 else hex0)"
  define hex2 where "hex2 = (if testHighNibble hex1 then ''00'' @ hex1 else hex1)"
  have h0: "hex0 \<noteq> []" "list_all isHexDigit hex0" "hexValue hex0 = v"
    using toHex_nat_props[OF assms] by (simp_all add: hex0_def)
  have h1: "hex1 \<noteq> []" "list_all isHexDigit hex1" "hexValue hex1 = v" "even (length hex1)"
    using h0 zero_char_hex by (auto simp: hex1_def hexValue_Cons)
  from h1(1) obtain c t where ct: "hex1 = c # t" by (cases hex1) auto
  with h1(2) have c: "isHexDigit c" by simp
  have h2: "hex2 \<noteq> []" "list_all isHexDigit hex2" "hexValue hex2 = v" "even (length hex2)"
    using h1 zero_char_hex by (auto simp: hex2_def hexValue_Cons)
  have "hexDigitValue (hd hex2) < 8"
  proof (cases "testHighNibble hex1")
    case True
    then show ?thesis using zero_char_hex by (simp add: hex2_def)
  next
    case False
    then have "\<not> 8 \<le> hexDigitValue c" using c by (simp add: ct testHighNibble_hex)
    with False show ?thesis by (simp add: hex2_def ct)
  qed
  moreover have "getPaddedHex v = Ok hex2"
    using assms by (simp add: getPaddedHex_def bigint_toString16_def hex0_def hex1_def hex2_def Let_def)
  ultimately show ?thesis using h2 by blast
qed

text \<open>The upper-case form of a character, as \<open>toUpperCase\<close> maps it.\<close>

lemma toUpperCase_Cons:
  "toUpperCase (c # s) =
     (if 97 \<le> (of_char c :: int) \<and> (of_char c :: int) \<le> 122
      then char_of ((of_char c :: int) - 32) else c) # toUpperCase s"
  by (simp add: toUpperCase_def)

lemma upper_is_F: 
  assumes "isHexDigit c"
    "(if 97 \<le> (of_char c :: int) \<and> (of_char c :: int) \<le> 122
      then char_of ((of_char c :: int) - 32) else c) = CHR ''F''"
  shows "hexDigitValue c = 15"
proof (cases "97 \<le> (of_char c :: int) \<and> (of_char c :: int) \<le> 122")
  case True
  with assms(2) have "char_of ((of_char c :: int) - 32) = CHR ''F''" by simp
  then have "(of_char (char_of ((of_char c :: int) - 32)) :: int) = of_char (CHR ''F'')" by simp
  then have "((of_char c :: int) - 32) mod 256 = 70" by simp
  with True have "(of_char c :: int) = 102" by presburger
  then show ?thesis by (simp add: hexDigitValue_def)
next
  case False
  with assms(2) have "c = CHR ''F''" by simp
  then show ?thesis by (simp add: hexDigitValue_def)
qed

lemma upper_is_8: 
  assumes "(if 97 \<le> (of_char c :: int) \<and> (of_char c :: int) \<le> 122
      then char_of ((of_char c :: int) - 32) else c) = CHR ''8''"
  shows "hexDigitValue c = 8"
proof (cases "97 \<le> (of_char c :: int) \<and> (of_char c :: int) \<le> 122")
  case True
  with assms have "char_of ((of_char c :: int) - 32) = CHR ''8''" by simp
  then have "(of_char (char_of ((of_char c :: int) - 32)) :: int) = of_char (CHR ''8'')" by simp
  then have "((of_char c :: int) - 32) mod 256 = 56" by simp
  with True have False by presburger
  then show ?thesis ..
next
  case False
  with assms have "c = CHR ''8''" by simp
  then show ?thesis by (simp add: hexDigitValue_def)
qed

lemma startsWith_FF8:
  assumes "startsWith (toUpperCase s) ''FF8''" "list_all isHexDigit s"
  shows "\<exists>c1 c2 c3 r. s = c1 # c2 # c3 # r \<and> hexDigitValue c1 = 15 \<and> hexDigitValue c2 = 15 \<and>
           hexDigitValue c3 = 8"
proof -
  from assms(1) obtain c1 s1 where s1: "s = c1 # s1"
    by (cases s) (simp_all add: startsWith_def toUpperCase_def)
  from assms(1) obtain c2 s2 where s2: "s1 = c2 # s2"
    unfolding s1 by (cases s1) (simp_all add: startsWith_def toUpperCase_def)
  from assms(1) obtain c3 r where s3: "s2 = c3 # r"
    unfolding s1 s2 by (cases s2) (simp_all add: startsWith_def toUpperCase_def)
  have s: "s = c1 # c2 # c3 # r" by (simp add: s1 s2 s3)
  from assms(1) have u:
    "(if 97 \<le> (of_char c1 :: int) \<and> (of_char c1 :: int) \<le> 122
      then char_of ((of_char c1 :: int) - 32) else c1) = CHR ''F''"
    "(if 97 \<le> (of_char c2 :: int) \<and> (of_char c2 :: int) \<le> 122
      then char_of ((of_char c2 :: int) - 32) else c2) = CHR ''F''"
    "(if 97 \<le> (of_char c3 :: int) \<and> (of_char c3 :: int) \<le> 122
      then char_of ((of_char c3 :: int) - 32) else c3) = CHR ''8''"
    unfolding s startsWith_def toUpperCase_Cons by simp_all
  from assms(2) have h: "isHexDigit c1" "isHexDigit c2" by (simp_all add: s)
  have "hexDigitValue c1 = 15" by (rule upper_is_F[OF h(1) u(1)])
  moreover have "hexDigitValue c2 = 15" by (rule upper_is_F[OF h(2) u(2)])
  moreover have "hexDigitValue c3 = 8" by (rule upper_is_8[OF u(3)])
  ultimately show ?thesis using s by blast
qed

lemma hexValue_F_Cons: "hexValue (CHR ''F'' # t) = 15 * 16 ^ length t + hexValue t"
  using F_char_hex by (simp add: hexValue_Cons)

lemma getPaddedHex_negative_value:
  assumes "v < 0"
  shows "\<exists>L. 0 < L \<and> even L \<and> - v < 16 ^ (L - 1) \<and>
           getPaddedHex v =
             Ok (if startsWith (toUpperCase (toHex_nat (16 ^ L + v))) ''FF8''
                 then drop 2 (toHex_nat (16 ^ L + v)) else toHex_nat (16 ^ L + v))"
proof -
  define n where "n = - v"
  have n: "0 < n" "0 \<le> n" using assms by (simp_all add: n_def)
  define ds where "ds = toHex_nat n"
  define d where "d = length ds"
  have ds: "ds \<noteq> []" "list_all isHexDigit ds" "hexValue ds = n" "n < 16 ^ d"
    using toHex_nat_props[OF n(2)] by (simp_all add: ds_def d_def)
  define hex1 where
    "hex1 = (if length (CHR ''-'' # ds) mod 2 \<noteq> 0 then CHR ''0'' # CHR ''-'' # ds else CHR ''-'' # ds)"
  define L where "L = length hex1"
  define inv where "inv = concat (map invertNibble ds)"
  have inv: "length inv = d" "list_all isHexDigit inv" "hexValue inv = 16 ^ d - 1 - n"
    using inverted_digits[OF ds(2)] ds(3) by (simp_all add: inv_def d_def)
  have nohigh: "\<not> testHighNibble hex1"
    by (simp add: hex1_def testHighNibble_def)
  define inverted where "inverted = concat (map invertNibble hex1)"
  have par: "(length (CHR ''-'' # ds) mod 2 \<noteq> 0) = even d"
    unfolding d_def by (simp add: mod_Suc even_iff_mod_2_eq_zero)
  have L: "0 < L" "even L" "d \<le> L - 1"
    unfolding L_def hex1_def par by (simp_all add: d_def)
  have inverted: "inverted \<noteq> [] \<and> list_all isHexDigit inverted \<and> hexValue inverted = 16 ^ L - 1 - n"
  proof (cases "length (CHR ''-'' # ds) mod 2 \<noteq> 0")
    case True
    then have "inverted = CHR ''F'' # CHR ''F'' # inv" "L = Suc (Suc d)"
      by (simp_all add: inverted_def hex1_def invertNibble_minus invertNibble_zero inv_def L_def d_def)
    with inv F_char_hex show ?thesis
      by (simp add: hexValue_F_Cons)
  next
    case False
    then have "inverted = CHR ''F'' # inv" "L = Suc d"
      by (simp_all add: inverted_def hex1_def invertNibble_minus inv_def L_def d_def)
    with inv F_char_hex show ?thesis
      by (simp add: hexValue_F_Cons)
  qed
  then have parse: "BigInt_0x inverted = Ok (16 ^ L - 1 - n)"
    by (simp add: BigInt_0x_hex)
  have "(16 :: int) ^ d \<le> 16 ^ (L - 1)" using L(3) by simp
  with ds(4) have bound: "n < 16 ^ (L - 1)" by linarith
  have "(16 :: int) ^ (L - 1) \<le> 16 ^ L" by simp
  with bound have nonneg: "\<not> 16 ^ L - 1 - n + 1 < 0" by linarith
  have a: "bigint_toString16 v = CHR ''-'' # ds"
    using assms by (simp add: bigint_toString16_def n_def ds_def)
  have b: "(if length (CHR ''-'' # ds) mod 2 \<noteq> 0 then CHR ''0'' # CHR ''-'' # ds
            else CHR ''-'' # ds) = hex1"
    by (simp only: hex1_def)
  have c: "(if testHighNibble hex1 then ''00'' @ hex1 else hex1) = hex1"
    using nohigh by simp
  have ts: "bigint_toString16 (16 ^ L - n) = toHex_nat (16 ^ L + v)"
    using nonneg by (simp add: bigint_toString16_def n_def)
  have "getPaddedHex v =
          rbind (BigInt_0x inverted) (\<lambda>n.
            Ok (if startsWith (toUpperCase (bigint_toString16 (n + 1))) ''FF8''
                then drop 2 (bigint_toString16 (n + 1)) else bigint_toString16 (n + 1)))"
    unfolding getPaddedHex_def Let_def a b c inverted_def
    by (simp only: assms if_True)
  also have "\<dots> = Ok (if startsWith (toUpperCase (toHex_nat (16 ^ L + v))) ''FF8''
                 then drop 2 (toHex_nat (16 ^ L + v)) else toHex_nat (16 ^ L + v))"
    by (simp add: parse rbind_def ts)
  finally show ?thesis using L bound by (auto simp: n_def)
qed

section \<open>Claims about the canonical encoding\<close>

text \<open>
  C2. For every integer \<open>v\<close> (negative, positive, zero, with the high bit set, with an
  even or an odd number of digits), reading the output of \<open>getPaddedHex v\<close> as a
  two's-complement signed byte string gives \<open>v\<close> back.
\<close>

theorem getPaddedHex_roundtrip:
  "\<exists>s. getPaddedHex v = Ok s \<and> decodeSigned s = Some v"
proof (cases "0 \<le> v")
  case True
  from getPaddedHex_nonneg[OF True] obtain s where
    s: "getPaddedHex v = Ok s" "s \<noteq> []" "even (length s)" "list_all isHexDigit s"
       "hexValue s = v" "hexDigitValue (hd s) < 8" by blast
  then have "decodeSigned s = Some v" by (simp add: decodeSigned_def)
  with s(1) show ?thesis by blast
next
  case False
  then have neg: "v < 0" by simp
  from getPaddedHex_negative_value[OF neg] obtain L where
    L: "0 < L" "even L" "- v < 16 ^ (L - 1)" and
    g: "getPaddedHex v =
             Ok (if startsWith (toUpperCase (toHex_nat (16 ^ L + v))) ''FF8''
                 then drop 2 (toHex_nat (16 ^ L + v)) else toHex_nat (16 ^ L + v))"
    by blast
  define V where "V = 16 ^ L + v"
  define out where "out = toHex_nat V"
  have pw: "(16 :: int) ^ L = 16 * 16 ^ (L - 1)"
    using L(1) by (cases L) simp_all
  have V: "0 < V" "16 ^ (L - 1) \<le> V" "V < 16 ^ L" "8 * 16 ^ (L - 1) \<le> V"
    using L(3) neg pw by (simp_all add: V_def)
  have out: "out \<noteq> []" "list_all isHexDigit out" "hexValue out = V"
    using toHex_nat_props[of V] V(1) by (simp_all add: out_def)
  have len: "length out = L"
    unfolding out_def by (rule toHex_nat_length[OF V(1) V(2) V(3) L(1)])
  show ?thesis
  proof (cases "startsWith (toUpperCase out) ''FF8''")
    case False
    have "decodeSigned out = Some (V - 16 ^ L)"
      using decodeSigned_value[OF out(1) _ out(2)] L(2) V(4) by (simp add: len out(3))
    then have "decodeSigned out = Some v" by (simp add: V_def)
    moreover have "getPaddedHex v = Ok out"
      using g False unfolding V_def[symmetric] out_def[symmetric] by simp
    ultimately show ?thesis by blast
  next
    case True
    from startsWith_FF8[OF True out(2)] obtain c1 c2 c3 r where
      o: "out = c1 # c2 # c3 # r" "hexDigitValue c1 = 15" "hexDigitValue c2 = 15"
         "hexDigitValue c3 = 8" by blast
    define m where "m = length (c3 # r)"
    have Lm: "L = Suc (Suc m)" using len by (simp add: o(1) m_def)
    have hv: "V = 15 * (16 * 16 ^ m) + 15 * 16 ^ m + hexValue (c3 # r)"
      using out(3) by (simp add: o hexValue_Cons[of c1] hexValue_Cons[of c2] m_def)
    have ev: "even m" using L(2) by (simp add: Lm)
    have hx: "list_all isHexDigit (c3 # r)" using out(2) by (simp add: o(1))
    have "decodeSigned (c3 # r) = Some (hexValue (c3 # r) - 16 ^ m)"
      using ev hx o(4) by (simp add: decodeSigned_def m_def)
    also have "hexValue (c3 # r) - 16 ^ m = V - 16 ^ L"
      using hv by (simp add: Lm)
    also have "\<dots> = v" by (simp add: V_def)
    finally have "decodeSigned (c3 # r) = Some v" .
    moreover have "getPaddedHex v = Ok (c3 # r)"
      using g True unfolding V_def[symmetric] out_def[symmetric] by (simp add: o(1))
    ultimately show ?thesis by blast
  qed
qed

theorem getPaddedHex_roundtrip_witness:
  "(\<exists>s. getPaddedHex (- 128) = Ok s \<and> decodeSigned s = Some (- 128)) \<and>
   (\<exists>s. getPaddedHex 255 = Ok s \<and> decodeSigned s = Some 255)"
  using getPaddedHex_roundtrip [of "- 128"] getPaddedHex_roundtrip [of 255] by simp

lemma complemented_digits:
  "list_all isHexDigit ds \<Longrightarrow>
   hexValue (map (\<lambda>c. hexDigit (15 - hexDigitValue c)) ds) = 16 ^ length ds - 1 - hexValue ds"
proof (induction ds)
  case Nil
  then show ?case by (simp add: hexValue_Nil)
next
  case (Cons c ds)
  have b: "0 \<le> 15 - hexDigitValue c" "15 - hexDigitValue c < 16"
    using hexDigitValue_bounds[of c] by simp_all
  from Cons have IH: "hexValue (map (\<lambda>c. hexDigit (15 - hexDigitValue c)) ds) =
                        16 ^ length ds - 1 - hexValue ds"
    by simp
  show ?case
    by (simp add: hexValue_Cons IH hexDigit_value[OF b] algebra_simps)
qed

lemma getPaddedHex_BigInteger_matches_spec: "getPaddedHex_BigInteger v = pad_spec v"
proof -
  define hex0 where "hex0 = toHex_nat \<bar>v\<bar>"
  define hex1 where "hex1 = (if length hex0 mod 2 \<noteq> 0 then CHR ''0'' # hex0 else hex0)"
  define hex2 where "hex2 = (if testHighNibble hex1 then ''00'' @ hex1 else hex1)"
  have parity: "odd (length hex0) = (length hex0 mod 2 \<noteq> 0)"
    by presburger
  have hex1_alt: "(if odd (length hex0) then CHR ''0'' # hex0 else hex0) = hex1"
    unfolding hex1_def parity by (rule refl)
  have h0: "hex0 \<noteq> []" "list_all isHexDigit hex0"
    using toHex_nat_props[of "\<bar>v\<bar>"] by (simp_all add: hex0_def)
  have h1: "hex1 \<noteq> []" "list_all isHexDigit hex1"
    using h0 zero_char_hex by (auto simp: hex1_def)
  from h1(1) obtain c t where ct: "hex1 = c # t" by (cases hex1) auto
  with h1(2) have c: "isHexDigit c" by simp
  have high: "(8 \<le> hexDigitValue (hd hex1)) = testHighNibble hex1"
    using c by (simp add: ct testHighNibble_hex)
  have hex2_alt: "(if 8 \<le> hexDigitValue (hd hex1) then ''00'' @ hex1 else hex1) = hex2"
    unfolding hex2_def high by (rule refl)
  have h2: "list_all isHexDigit hex2"
    using h1 zero_char_hex by (auto simp: hex2_def)
  have inv: "hexValue (concat (map invertNibble hex2)) =
             hexValue (map (\<lambda>c. hexDigit (15 - hexDigitValue c)) hex2)"
    using inverted_digits[OF h2] complemented_digits[OF h2] by simp
  show ?thesis
    unfolding getPaddedHex_BigInteger_def pad_spec_def Let_def hex0_def[symmetric]
      hex1_def[symmetric] hex1_alt hex2_def[symmetric] hex2_alt inv
    by (rule refl)
qed




section \<open>The class CognitoSRP\<close>

lemma rbind_Ok [simp]: "rbind (Ok v) f = f v"
  by (simp add: rbind_def)

lemma rbind_Throw [simp]: "rbind (Throw e) f = Throw e"
  by (simp add: rbind_def)

lemma rbind_Diverge [simp]: "rbind Diverge f = Diverge"
  by (simp add: rbind_def)

lemma INIT_N_hex: "INIT_N \<noteq> [] \<and> list_all isHexDigit INIT_N"
  by code_simp

lemma srp_N_value [code]:
  "srp_N = 0xFFFFFFFFFFFFFFFFC90FDAA22168C234C4C6628B80DC1CD129024E088A67CC74020BBEA63B139B22514A08798E3404DDEF9519B3CD3A431B302B0A6DF25F14374FE1356D6D51C245E485B576625E7EC6F44C42E9A637ED6B0BFF5CB6F406B7EDEE386BFB5A899FA5AE9F24117C4B1FE649286651ECE45B3DC2007CB8A163BF0598DA48361C55D39A69163FA8FD24CF5F83655D23DCA3AD961C62F356208552BB9ED529077096966D670C354E4ABC9804F1746C08CA18217C32905E462E36CE3BE39E772C180E86039B2783A2EC07A28FB5C55DF06F4C52C9DE2BCBF6955817183995497CEA956AE515D2261898FA051015728E5A8AAAC42DAD33170D04507A33A85521ABDF1CBA64ECFB850458DBEF0A8AEA71575D060C7DB3970F85A6E1E4C7ABF5AE8CDB0933D71E8C94E04A25619DCEE3D2261AD2EE6BF12FFA06D98A0864D87602733EC86A64521F2B18177B200CBBE117577A615D6C770988C0BAD946E208E24FA074E5AB3143DB5BFCE0FD108E4B82D120A93AD2CAFFFFFFFFFFFFFFFF"
  unfolding srp_N_def by code_simp

lemma srp_N_gt_1: "1 < srp_N"
  by (simp add: srp_N_value)


lemma BigInt_0x_INIT_N: "BigInt_0x INIT_N = Ok srp_N"
  using INIT_N_hex by (simp add: BigInt_0x_hex srp_N_def)

lemma BigInt_0x_cases:
  "BigInt_0x s = Throw SyntaxError \<or> (\<exists>a. BigInt_0x s = Ok a \<and> 0 \<le> a)"
  using hexValue_bounds[of "trimEnd s"] by (simp add: BigInt_0x_def Let_def)

lemma BigInt_0x_nonneg: "BigInt_0x s = Ok a \<Longrightarrow> 0 \<le> a"
  using BigInt_0x_cases[of s] by auto

lemma bigint_rem_eq_0_iff: "0 \<le> b \<Longrightarrow> 0 < n \<Longrightarrow> (bigint_rem b n = 0) = (b mod n = 0)"
  by (simp add: bigint_rem_nonneg)






text \<open>
  C3. For every private key \<open>x\<close>, server value \<open>B\<close> and scrambling value \<open>u\<close>, with the
  exponent \<open>a\<close> the instance holds and its constants \<open>k\<close>, \<open>g\<close> and \<open>N\<close>, the secret
  \<open>calculateS\<close> computes is \<open>(B - k * (g ^ x mod N)) ^ (a + u * x) mod N\<close>, a value of
  \<open>[0, N)\<close>. The two exponents \<open>x\<close> and \<open>a + u * x\<close> are non-negative, as they are for
  the \<open>x\<close>, \<open>u\<close> and \<open>a\<close> the class derives (hashes and random bytes read as
  hexadecimal numbers).
\<close>

theorem calculateS_spec:
  "srp_a this = Some a \<Longrightarrow> 0 \<le> x \<Longrightarrow> 0 \<le> a + u * x \<Longrightarrow>
   calculateS this x B u =
     Ok ((B - srp_k this * (srp_g ^ nat x mod srp_N)) ^ nat (a + u * x) mod srp_N) \<and>
   0 \<le> (B - srp_k this * (srp_g ^ nat x mod srp_N)) ^ nat (a + u * x) mod srp_N \<and>
   (B - srp_k this * (srp_g ^ nat x mod srp_N)) ^ nat (a + u * x) mod srp_N < srp_N"
proof -
  assume h: "srp_a this = Some a" "0 \<le> x" and e: "0 \<le> a + u * x"
  have N: "1 < srp_N" "0 < srp_N" using srp_N_gt_1 by simp_all
  have p: "modPow srp_g x srp_N = Ok (srp_g ^ nat x mod srp_N)"
    using h N by (simp add: modPow_nonneg)
  have "calculateS this x B u =
          modPow (B - srp_g ^ nat x mod srp_N * srp_k this) (a + u * x) srp_N"
    using h p by (simp add: calculateS_def Let_def)
  also have "\<dots> = Ok ((B - srp_g ^ nat x mod srp_N * srp_k this) ^ nat (a + u * x) mod srp_N)"
    using e N by (simp add: modPow_nonneg)
  finally show ?thesis using N by (simp add: mult.commute)
qed

theorem calculateS_spec_witness:
  "srp_a demo_this = Some 3 \<and> (0 :: int) \<le> 5 \<and> (0 :: int) \<le> 3 + 5 * 5 \<and>
   calculateS demo_this 5 2748 5 =
     Ok ((2748 - srp_k demo_this * (srp_g ^ nat 5 mod srp_N)) ^ nat (3 + 5 * 5) mod srp_N) \<and>
   0 \<le> (2748 - srp_k demo_this * (srp_g ^ nat 5 mod srp_N)) ^ nat (3 + 5 * 5) mod srp_N \<and>
   (2748 - srp_k demo_this * (srp_g ^ nat 5 mod srp_N)) ^ nat (3 + 5 * 5) mod srp_N < srp_N"
proof -
  have a: "srp_a demo_this = Some 3" by (simp add: demo_this_def)
  show ?thesis
    using calculateS_spec [OF a, of 5 5 2748] a by simp
qed

lemma deriveU_timestamp [simp]: "deriveU e (this\<lparr>timestamp := t\<rparr>) B = deriveU e this B"
  by (simp add: deriveU_def)

lemma calculateU_timestamp [simp]: "calculateU e (this\<lparr>timestamp := t\<rparr>) B = calculateU e this B"
  by (simp add: calculateU_def)

lemma hexValue_leading_zero: "hexValue (CHR ''0'' # s) = hexValue s"
  using zero_char_hex by (simp add: hexValue_Cons)

lemma BigInt_0x_leading_zero:
  assumes "s \<noteq> []" "list_all isHexDigit s"
  shows "BigInt_0x (CHR ''0'' # s) = BigInt_0x s"
proof -
  have "list_all isHexDigit (CHR ''0'' # s)" using assms zero_char_hex by simp
  then have "BigInt_0x (CHR ''0'' # s) = Ok (hexValue (CHR ''0'' # s))"
    by (intro BigInt_0x_hex) simp_all
  with assms show ?thesis by (simp add: BigInt_0x_hex hexValue_leading_zero)
qed

lemma in_set_dropWhile: "x \<in> set xs \<Longrightarrow> \<not> P x \<Longrightarrow> x \<in> set (dropWhile P xs)"
  by (induction xs) auto

lemma BigInt_0x_refuses:
  assumes "s = [] \<or> (\<exists>c \<in> set s. \<not> isHexDigit c \<and> \<not> isStrWhiteSpaceChar c)"
  shows "BigInt_0x s = Throw SyntaxError"
proof (cases "s = []")
  case True
  then show ?thesis by (simp add: BigInt_0x_def trimEnd_def)
next
  case False
  with assms obtain c where c: "c \<in> set s" "\<not> isHexDigit c" "\<not> isStrWhiteSpaceChar c" by blast
  then have "c \<in> set (rev s)" by simp
  from in_set_dropWhile[of c "rev s" isStrWhiteSpaceChar, OF this c(3)] have "c \<in> set (trimEnd s)" by (simp add: trimEnd_def)
  with c(2) have "\<not> list_all isHexDigit (trimEnd s)" by (auto simp: list_all_iff)
  then show ?thesis by (simp add: BigInt_0x_def Let_def)
qed

text \<open>
  C7. For every challenge whose \<^verbatim>\<open>SRP_B\<close> is congruent to 0 modulo \<open>N\<close>, and for every
  challenge whose derived scrambling value \<open>u\<close> is 0,
  \<open>calculatePasswordClaimSignature\<close> aborts with a protocol error, whatever the salt,
  the password and the secret block are (so before the salt is read and the secret
  \<open>S\<close> is computed), and returns no signature.
\<close>

theorem signature_aborts:
  "BigInt_0x (SRP_B cp) = Ok B \<Longrightarrow>
   (B mod srp_N = 0 \<longrightarrow>
      calculatePasswordClaimSignature e this password cp =
        Throw (Error ''Invalid server public key'')) \<and>
   (B mod srp_N \<noteq> 0 \<and> deriveU e this B = Ok 0 \<longrightarrow>
      calculatePasswordClaimSignature e this password cp = Throw (Error ''U cannot be zero.''))"
proof -
  assume B: "BigInt_0x (SRP_B cp) = Ok B"
  then have "0 \<le> B" by (rule BigInt_0x_nonneg)
  then have r: "(bigint_rem B srp_N = 0) = (B mod srp_N = 0)"
    using srp_N_gt_1 by (intro bigint_rem_eq_0_iff) simp_all
  show ?thesis
    using B r by (simp add: calculatePasswordClaimSignature_def calculateU_def Let_def)
qed

theorem signature_aborts_witness:
  "BigInt_0x (SRP_B \<lparr>USER_ID_FOR_SRP = ''u'', SALT = ''abc'', SECRET_BLOCK = ''AAAA'',
                      SRP_B = INIT_N\<rparr>) = Ok srp_N \<and>
   srp_N mod srp_N = 0 \<and>
   calculatePasswordClaimSignature demo_env demo_this ''pw''
     \<lparr>USER_ID_FOR_SRP = ''u'', SALT = ''abc'', SECRET_BLOCK = ''AAAA'', SRP_B = INIT_N\<rparr> =
     Throw (Error ''Invalid server public key'') \<and>
   BigInt_0x (SRP_B \<lparr>USER_ID_FOR_SRP = ''u'', SALT = ''abc'', SECRET_BLOCK = ''AAAA'',
                      SRP_B = ''abc''\<rparr>) = Ok 2748 \<and>
   2748 mod srp_N \<noteq> 0 \<and> deriveU zero_hash_env demo_this 2748 = Ok 0 \<and>
   calculatePasswordClaimSignature zero_hash_env demo_this ''pw''
     \<lparr>USER_ID_FOR_SRP = ''u'', SALT = ''abc'', SECRET_BLOCK = ''AAAA'', SRP_B = ''abc''\<rparr> =
     Throw (Error ''U cannot be zero.'')"
proof -
  have b1: "BigInt_0x (SRP_B \<lparr>USER_ID_FOR_SRP = ''u'', SALT = ''abc'', SECRET_BLOCK = ''AAAA'',
                      SRP_B = INIT_N\<rparr>) = Ok srp_N"
    by (simp add: BigInt_0x_INIT_N)
  have b2: "BigInt_0x (SRP_B \<lparr>USER_ID_FOR_SRP = ''u'', SALT = ''abc'', SECRET_BLOCK = ''AAAA'',
                      SRP_B = ''abc''\<rparr>) = Ok 2748"
    by code_simp
  have n: "(2748 :: int) mod srp_N \<noteq> 0" by (simp add: srp_N_value)
  have u: "deriveU zero_hash_env demo_this 2748 = Ok 0" by code_simp
  show ?thesis
    using signature_aborts [OF b1, of demo_env demo_this "''pw''"]
      signature_aborts [OF b2, of zero_hash_env demo_this "''pw''"] b1 b2 n u
    by simp
qed

text \<open>
  C9, as the code has it. \<open>calculatePasswordClaimSignature\<close> does not validate
  \<^verbatim>\<open>SALT\<close> or \<^verbatim>\<open>SRP_B\<close> as hexadecimal text; each is read by \<^verbatim>\<open>BigInt("0x" + s)\<close>. A
  non-empty string of hexadecimal digits of any length, odd ones included, is read
  as a number, the same number and the same result of the call as with a \<^verbatim>\<open>0\<close> in
  front. A string that is empty or holds a character that is neither a hexadecimal
  digit nor white space makes \<^verbatim>\<open>BigInt\<close> throw its \<^verbatim>\<open>SyntaxError\<close>; the call then ends
  with that \<^verbatim>\<open>SyntaxError\<close> and no signature, for \<^verbatim>\<open>SRP_B\<close> always and for \<^verbatim>\<open>SALT\<close>
  once the tests of \<open>B\<close> and \<open>u\<close> have passed.
\<close>

theorem signature_hex_parsing:
  "(s \<noteq> [] \<and> list_all isHexDigit s \<longrightarrow>
      BigInt_0x s = Ok (hexValue s) \<and>
      calculatePasswordClaimSignature e this password (cp\<lparr>SRP_B := s\<rparr>) =
        calculatePasswordClaimSignature e this password (cp\<lparr>SRP_B := CHR ''0'' # s\<rparr>) \<and>
      calculatePasswordClaimSignature e this password (cp\<lparr>SALT := s\<rparr>) =
        calculatePasswordClaimSignature e this password (cp\<lparr>SALT := CHR ''0'' # s\<rparr>)) \<and>
   (s = [] \<or> (\<exists>c \<in> set s. \<not> isHexDigit c \<and> \<not> isStrWhiteSpaceChar c) \<longrightarrow>
      BigInt_0x s = Throw SyntaxError) \<and>
   (BigInt_0x (SRP_B cp) = Throw SyntaxError \<longrightarrow>
      calculatePasswordClaimSignature e this password cp = Throw SyntaxError) \<and>
   (BigInt_0x (SRP_B cp) = Ok B \<and> B mod srp_N \<noteq> 0 \<and> calculateU e this B = Ok U \<and>
    BigInt_0x (SALT cp) = Throw SyntaxError \<longrightarrow>
      calculatePasswordClaimSignature e this password cp = Throw SyntaxError)"
proof (intro conjI impI)
  assume h: "s \<noteq> [] \<and> list_all isHexDigit s"
  then show "BigInt_0x s = Ok (hexValue s)" by (simp add: BigInt_0x_hex)
  from h have z: "BigInt_0x (CHR ''0'' # s) = BigInt_0x s"
    by (simp add: BigInt_0x_leading_zero)
  show "calculatePasswordClaimSignature e this password (cp\<lparr>SRP_B := s\<rparr>) =
        calculatePasswordClaimSignature e this password (cp\<lparr>SRP_B := CHR ''0'' # s\<rparr>)"
    by (simp add: calculatePasswordClaimSignature_def Let_def z cong: if_cong)
  show "calculatePasswordClaimSignature e this password (cp\<lparr>SALT := s\<rparr>) =
        calculatePasswordClaimSignature e this password (cp\<lparr>SALT := CHR ''0'' # s\<rparr>)"
    by (simp add: calculatePasswordClaimSignature_def Let_def z cong: if_cong)
next
  assume "s = [] \<or> (\<exists>c \<in> set s. \<not> isHexDigit c \<and> \<not> isStrWhiteSpaceChar c)"
  then show "BigInt_0x s = Throw SyntaxError" by (rule BigInt_0x_refuses)
next
  assume "BigInt_0x (SRP_B cp) = Throw SyntaxError"
  then show "calculatePasswordClaimSignature e this password cp = Throw SyntaxError"
    by (simp add: calculatePasswordClaimSignature_def Let_def)
next
  assume h: "BigInt_0x (SRP_B cp) = Ok B \<and> B mod srp_N \<noteq> 0 \<and> calculateU e this B = Ok U \<and>
    BigInt_0x (SALT cp) = Throw SyntaxError"
  then have "0 \<le> B" using BigInt_0x_nonneg[of "SRP_B cp" B] by blast
  then have r: "(bigint_rem B srp_N = 0) = (B mod srp_N = 0)"
    using srp_N_gt_1 by (intro bigint_rem_eq_0_iff) simp_all
  show "calculatePasswordClaimSignature e this password cp = Throw SyntaxError"
    using h r by (simp add: calculatePasswordClaimSignature_def Let_def)
qed

theorem signature_hex_parsing_witness:
  "BigInt_0x ''abc'' = Ok (hexValue ''abc'') \<and>
   calculatePasswordClaimSignature demo_env demo_this ''pw''
       (\<lparr>USER_ID_FOR_SRP = ''u'', SALT = ''zz'', SECRET_BLOCK = ''AAAA'', SRP_B = ''abc''\<rparr>
          \<lparr>SRP_B := ''abc''\<rparr>) =
     calculatePasswordClaimSignature demo_env demo_this ''pw''
       (\<lparr>USER_ID_FOR_SRP = ''u'', SALT = ''zz'', SECRET_BLOCK = ''AAAA'', SRP_B = ''abc''\<rparr>
          \<lparr>SRP_B := CHR ''0'' # ''abc''\<rparr>) \<and>
   calculatePasswordClaimSignature demo_env demo_this ''pw''
       (\<lparr>USER_ID_FOR_SRP = ''u'', SALT = ''zz'', SECRET_BLOCK = ''AAAA'', SRP_B = ''abc''\<rparr>
          \<lparr>SALT := ''abc''\<rparr>) =
     calculatePasswordClaimSignature demo_env demo_this ''pw''
       (\<lparr>USER_ID_FOR_SRP = ''u'', SALT = ''zz'', SECRET_BLOCK = ''AAAA'', SRP_B = ''abc''\<rparr>
          \<lparr>SALT := CHR ''0'' # ''abc''\<rparr>) \<and>
   BigInt_0x ''zz'' = Throw SyntaxError \<and>
   calculatePasswordClaimSignature demo_env demo_this ''pw''
     \<lparr>USER_ID_FOR_SRP = ''u'', SALT = ''abc'', SECRET_BLOCK = ''AAAA'', SRP_B = ''zz''\<rparr> =
     Throw SyntaxError \<and>
   calculatePasswordClaimSignature demo_env demo_this ''pw''
     \<lparr>USER_ID_FOR_SRP = ''u'', SALT = ''zz'', SECRET_BLOCK = ''AAAA'', SRP_B = ''abc''\<rparr> =
     Throw SyntaxError"
proof -
  have hex: "''abc'' \<noteq> [] \<and> list_all isHexDigit ''abc''" by code_simp
  have bad: "''zz'' = [] \<or> (\<exists>c \<in> set ''zz''. \<not> isHexDigit c \<and> \<not> isStrWhiteSpaceChar c)"
    by code_simp
  have B: "BigInt_0x ''abc'' = Ok 2748" by code_simp
  have n: "(2748 :: int) mod srp_N \<noteq> 0" by (simp add: srp_N_value)
  have U: "calculateU demo_env demo_this 2748 = Ok 5" by code_simp
  note t1 = signature_hex_parsing
    [of "''abc''" demo_env demo_this "''pw''"
        "\<lparr>USER_ID_FOR_SRP = ''u'', SALT = ''zz'', SECRET_BLOCK = ''AAAA'', SRP_B = ''abc''\<rparr>"
        2748 5]
  note t2 = signature_hex_parsing
    [of "''zz''" demo_env demo_this "''pw''"
        "\<lparr>USER_ID_FOR_SRP = ''u'', SALT = ''abc'', SECRET_BLOCK = ''AAAA'', SRP_B = ''zz''\<rparr>"
        0 0]
  have z: "BigInt_0x ''zz'' = Throw SyntaxError" using t2 bad by blast
  have s1: "SRP_B \<lparr>USER_ID_FOR_SRP = ''u'', SALT = ''abc'', SECRET_BLOCK = ''AAAA'', SRP_B = ''zz''\<rparr>
              = ''zz''"
    "SRP_B \<lparr>USER_ID_FOR_SRP = ''u'', SALT = ''zz'', SECRET_BLOCK = ''AAAA'', SRP_B = ''abc''\<rparr>
              = ''abc''"
    "SALT \<lparr>USER_ID_FOR_SRP = ''u'', SALT = ''zz'', SECRET_BLOCK = ''AAAA'', SRP_B = ''abc''\<rparr>
              = ''zz''"
    by simp_all
  show ?thesis
    using t1 t2 hex z B n U unfolding s1 by blast
qed

text \<open>
  C9 as the specification states it fails: with the odd-length \<^verbatim>\<open>SALT\<close> and \<^verbatim>\<open>SRP_B\<close>
  \<^verbatim>\<open>abc\<close> the call raises nothing and returns a signature.
\<close>

theorem signature_accepts_odd_length_hex:
  "calculatePasswordClaimSignature demo_env demo_this ''pw''
     \<lparr>USER_ID_FOR_SRP = ''u'', SALT = ''abc'', SECRET_BLOCK = ''AAAA'', SRP_B = ''abc''\<rparr> =
   Ok (demo_this\<lparr>timestamp := Some ''Tue Nov 3 09:05:07 UTC 2026''\<rparr>, replicate 32 (CHR 0x07))"
  by code_simp


end
